theory Spec2Isabelle
  imports Complex_Main "HOL-Library.Word"
begin

text \<open>
  A model of the Back To Top plugin (\<open>src/main.js\<close>): the heading pattern and the list
  rendered from it, the settings and their toggles, the floating elements and the
  workspace events that move them, the width computation, and the debounced trigger.
  The definitions come first, in the order of the source where they follow it; the
  properties proved of them follow.
\<close>

section \<open>JavaScript strings\<close>

text \<open>
  A JavaScript string is a sequence of 16-bit code units. The regular expression of
  \<open>refreshHeaderList\<close> has no \<open>u\<close> flag, so it reads the line one code unit at a time.
\<close>

type_synonym jschar = "16 word"
type_synonym jsstring = "jschar list"

definition js :: "string \<Rightarrow> jsstring" where
  \<comment> \<open>an ASCII literal as code units\<close>
  "js s = map (\<lambda>c. of_nat (of_char c)) s"

definition isLineTerminator :: "jschar \<Rightarrow> bool" where
  \<comment> \<open>ECMAScript LineTerminator: LF, CR, U+2028, U+2029\<close>
  "isLineTerminator c = (c = 0x000A \<or> c = 0x000D \<or> c = 0x2028 \<or> c = 0x2029)"

definition isWhiteSpace :: "jschar \<Rightarrow> bool" where
  \<comment> \<open>the class \<open>\s\<close>: ECMAScript WhiteSpace (TAB, VT, FF, SP, NBSP, ZWNBSP and the
      space separators) together with the line terminators\<close>
  "isWhiteSpace c =
     (c = 0x0009 \<or> c = 0x000B \<or> c = 0x000C \<or> c = 0x0020 \<or> c = 0x00A0 \<or> c = 0xFEFF \<or>
      c = 0x1680 \<or> (0x2000 \<le> c \<and> c \<le> 0x200A) \<or> c = 0x202F \<or> c = 0x205F \<or> c = 0x3000 \<or>
      isLineTerminator c)"

definition isHash :: "jschar \<Rightarrow> bool" where
  "isHash c = (c = 0x0023)"

definition isDot :: "jschar \<Rightarrow> bool" where
  \<comment> \<open>the atom \<open>.\<close> without the \<open>s\<close> flag: any code unit but a line terminator\<close>
  "isDot c = (\<not> isLineTerminator c)"

fun split_newline :: "jsstring \<Rightarrow> jsstring list" where
  \<comment> \<open>\<open>text.split('\n')\<close>: never empty, the empty text is one empty line\<close>
  "split_newline [] = [[]]"
| "split_newline (c # cs) =
     (if c = 0x000A then [] # split_newline cs
      else (case split_newline cs of
              [] \<Rightarrow> [[c]]
            | l # ls \<Rightarrow> (c # l) # ls))"

section \<open>The heading pattern\<close>

text \<open>
  \<open>line.match(/^(#{1,6})\s+(.*)/)\<close>. The pattern is anchored at the start of the line and
  is a sequence of three greedy quantifiers over one-character atoms. A greedy quantifier
  tries the longest repetition first and gives characters back one at a time when what
  follows fails: \<open>greedy p lo hi s\<close> lists the repetition counts it tries on \<open>s\<close>, in that
  order. The match is the first combination of counts, in backtracking order, for which
  the whole pattern succeeds; nothing follows the last quantifier, so every combination
  succeeds.
\<close>

definition greedy :: "(jschar \<Rightarrow> bool) \<Rightarrow> nat \<Rightarrow> nat option \<Rightarrow> jsstring \<Rightarrow> nat list" where
  "greedy p lo hi s =
     (let run = length (takeWhile p s);
          top = (case hi of None \<Rightarrow> run | Some h \<Rightarrow> min h run)
      in rev [lo ..< Suc top])"

definition headerMatch :: "jsstring \<Rightarrow> (jsstring \<times> jsstring) option" where
  \<comment> \<open>the two capture groups, or \<open>None\<close> for \<open>null\<close>\<close>
  "headerMatch line =
     (case [(k1, k2, k3).
              k1 \<leftarrow> greedy isHash 1 (Some 6) line,
              k2 \<leftarrow> greedy isWhiteSpace 1 None (drop k1 line),
              k3 \<leftarrow> greedy isDot 0 None (drop (k1 + k2) line)] of
        [] \<Rightarrow> None
      | (k1, k2, k3) # _ \<Rightarrow> Some (take k1 line, take k3 (drop (k1 + k2) line)))"

section \<open>Settings\<close>

text \<open>
  The settings object: the four flags, and the three \<open>previous*\<close> values, which are
  \<open>undefined\<close> (\<open>None\<close>) until the menu is switched off for the first time.
\<close>

record settings =
  enableHeaderMenu :: bool
  showH1 :: bool
  showH2 :: bool
  showH3 :: bool
  previousShowH1 :: "bool option"
  previousShowH2 :: "bool option"
  previousShowH3 :: "bool option"

text \<open>
  \<open>loadData()\<close> gives \<open>null\<close> when nothing is stored, or the stored object, in which each
  key is present or not. \<open>Object.assign\<close> writes the keys the source has over the target's.
  \<open>saveData\<close> stores the settings as they are; a key that is \<open>undefined\<close> is not stored.
\<close>

record stored =
  stored_enableHeaderMenu :: "bool option"
  stored_showH1 :: "bool option"
  stored_showH2 :: "bool option"
  stored_showH3 :: "bool option"
  stored_previousShowH1 :: "bool option"
  stored_previousShowH2 :: "bool option"
  stored_previousShowH3 :: "bool option"

definition defaultSettings :: settings where
  "defaultSettings =
     \<lparr>enableHeaderMenu = True, showH1 = True, showH2 = True, showH3 = True,
      previousShowH1 = None, previousShowH2 = None, previousShowH3 = None\<rparr>"

definition assign :: "settings \<Rightarrow> stored \<Rightarrow> settings" where
  "assign target source =
     \<lparr>enableHeaderMenu =
        (case stored_enableHeaderMenu source of None \<Rightarrow> enableHeaderMenu target | Some b \<Rightarrow> b),
      showH1 = (case stored_showH1 source of None \<Rightarrow> showH1 target | Some b \<Rightarrow> b),
      showH2 = (case stored_showH2 source of None \<Rightarrow> showH2 target | Some b \<Rightarrow> b),
      showH3 = (case stored_showH3 source of None \<Rightarrow> showH3 target | Some b \<Rightarrow> b),
      previousShowH1 =
        (case stored_previousShowH1 source of None \<Rightarrow> previousShowH1 target | Some b \<Rightarrow> Some b),
      previousShowH2 =
        (case stored_previousShowH2 source of None \<Rightarrow> previousShowH2 target | Some b \<Rightarrow> Some b),
      previousShowH3 =
        (case stored_previousShowH3 source of None \<Rightarrow> previousShowH3 target | Some b \<Rightarrow> Some b)\<rparr>"

definition loadSettings :: "stored option \<Rightarrow> settings" where
  "loadSettings loadData =
     (case loadData of
        None \<Rightarrow> defaultSettings
      | Some source \<Rightarrow> assign defaultSettings source)"

definition saveSettings :: "settings \<Rightarrow> stored" where
  "saveSettings s =
     \<lparr>stored_enableHeaderMenu = Some (enableHeaderMenu s),
      stored_showH1 = Some (showH1 s),
      stored_showH2 = Some (showH2 s),
      stored_showH3 = Some (showH3 s),
      stored_previousShowH1 = previousShowH1 s,
      stored_previousShowH2 = previousShowH2 s,
      stored_previousShowH3 = previousShowH3 s\<rparr>"

text \<open>
  The two \<open>onChange\<close> handlers of the settings tab, as far as they write the settings
  (lines 222 to 238 and 256 to 259). The tier toggles are built only while
  \<open>enableHeaderMenu\<close> is true.
\<close>

definition onChangeEnableHeaderMenu :: "bool \<Rightarrow> settings \<Rightarrow> settings" where
  \<comment> \<open>\<open>previousShowH1 ?? true\<close>: the stored value, or true when there is none\<close>
  "onChangeEnableHeaderMenu value s0 =
     (let s = s0\<lparr>enableHeaderMenu := value\<rparr> in
      if \<not> value then
        s\<lparr>previousShowH1 := Some (showH1 s),
          previousShowH2 := Some (showH2 s),
          previousShowH3 := Some (showH3 s),
          showH1 := False,
          showH2 := False,
          showH3 := False\<rparr>
      else
        s\<lparr>showH1 := (case previousShowH1 s of None \<Rightarrow> True | Some b \<Rightarrow> b),
          showH2 := (case previousShowH2 s of None \<Rightarrow> True | Some b \<Rightarrow> b),
          showH3 := (case previousShowH3 s of None \<Rightarrow> True | Some b \<Rightarrow> b)\<rparr>)"

datatype tier = H1 | H2 | H3

fun setShow :: "tier \<Rightarrow> bool \<Rightarrow> settings \<Rightarrow> settings" where
  "setShow H1 value s = s\<lparr>showH1 := value\<rparr>"
| "setShow H2 value s = s\<lparr>showH2 := value\<rparr>"
| "setShow H3 value s = s\<lparr>showH3 := value\<rparr>"

definition onChangeShow :: "tier \<Rightarrow> bool \<Rightarrow> settings \<Rightarrow> settings" where
  "onChangeShow level value s0 =
     (let s = setShow level value s0 in
      if value then s\<lparr>enableHeaderMenu := True\<rparr> else s)"

section \<open>Rendering the heading list\<close>

record headerItem =
  innerText :: jsstring
  dataset_line :: nat
  paddingLeft :: nat

definition tierHidden :: "settings \<Rightarrow> nat \<Rightarrow> bool" where
  \<comment> \<open>the condition of the early \<open>return\<close> in the loop body (lines 161 to 164)\<close>
  "tierHidden s level =
     ((level = 1 \<and> \<not> showH1 s) \<or>
      (level = 2 \<and> \<not> showH2 s) \<or>
      (level = 3 \<and> \<not> showH3 s) \<or>
      level > 3)"

definition createHeaderItem :: "nat \<Rightarrow> jsstring \<Rightarrow> nat \<Rightarrow> headerItem" where
  \<comment> \<open>the \<open>div\<close> built for a heading: its text, the line it came from and its indentation
      (the fixed style values are left out)\<close>
  "createHeaderItem level headerText index =
     \<lparr>innerText = headerText, dataset_line = index, paddingLeft = (level - 1) * 12\<rparr>"

definition appendHeader :: "settings \<Rightarrow> jsstring \<times> nat \<Rightarrow> headerItem list \<Rightarrow> headerItem list" where
  \<comment> \<open>the callback of \<open>lines.forEach((line, index) => ...)\<close>, on the children of \<open>headerList\<close>\<close>
  "appendHeader s = (\<lambda>(line, index) items.
     (case headerMatch line of
        None \<Rightarrow> items
      | Some (hashes, headerText) \<Rightarrow>
          (let level = length hashes in
           if tierHidden s level then items
           else items @ [createHeaderItem level headerText index])))"

definition forEachLine :: "settings \<Rightarrow> jsstring list \<Rightarrow> headerItem list \<Rightarrow> headerItem list" where
  "forEachLine s lines items = fold (appendHeader s) (zip lines [0 ..< length lines]) items"

definition headingRecords :: "jsstring list \<Rightarrow> (nat \<times> jsstring \<times> nat) list" where
  \<comment> \<open>what the matching step of the loop extracts, before the tier filter: for every line
      on which the match succeeds, \<open>headerMatch[1].length\<close>, \<open>headerMatch[2]\<close> and the
      line's index\<close>
  "headingRecords lines =
     [(length hashes, headerText, index).
        (line, index) \<leftarrow> zip lines [0 ..< length lines],
        (hashes, headerText) \<leftarrow> (case headerMatch line of None \<Rightarrow> [] | Some m \<Rightarrow> [m])]"

section \<open>The host application\<close>

text \<open>
  What the plugin reads from the workspace when an event arrives. A part the source
  reaches through \<open>?.\<close> or tests before use may be absent (\<open>None\<close>). \<open>getMode\<close> is
  \<open>None\<close> for a view object that has no such method: the source calls it on the active
  view whatever its type, and calling a missing method raises a \<open>TypeError\<close>.
  \<open>containerEl\<close> holds the element \<open>querySelector('.cm-s-obsidian')\<close> finds in it, if
  any; \<open>sourceMode\<close> holds the text of its \<open>cmEditor\<close>'s document, if it has one.
  Elements of the host are numbered; \<open>clientWidth\<close> gives the width of each.
\<close>

datatype js_error = TypeError

record host_view =
  getViewType :: string
  getMode :: "string option"
  containerEl :: "nat option option"
  sourceMode :: "jsstring option option"

record host_leaf =
  leaf_view :: "host_view option"

record workspace =
  activeLeaf :: "host_leaf option"
  getActiveFile :: "string option"
  clientWidth :: "nat \<Rightarrow> nat"

definition activeView :: "workspace \<Rightarrow> host_view option" where
  \<comment> \<open>\<open>activeLeaf?.view\<close>\<close>
  "activeView ws = (case activeLeaf ws of None \<Rightarrow> None | Some leaf \<Rightarrow> leaf_view leaf)"

definition cmEditor :: "workspace \<Rightarrow> jsstring option" where
  \<comment> \<open>\<open>activeLeaf?.view?.sourceMode?.cmEditor\<close>, as the text \<open>getDoc().getValue()\<close> gives\<close>
  "cmEditor ws =
     (case activeView ws of
        None \<Rightarrow> None
      | Some v \<Rightarrow> (case sourceMode v of None \<Rightarrow> None | Some editor \<Rightarrow> editor))"

section \<open>Numbers\<close>

text \<open>
  \<open>editorWidth * 0.1\<close> is a product of IEEE 754 doubles, rounded to the nearest double,
  ties to even. \<open>clientWidth\<close> is an integer, exact as a double. The literal \<open>0.1\<close> is the
  double \<open>3602879701896397 / 2^55\<close>. The exact product is \<open>n / 2^55\<close> for the integer
  \<open>n = editorWidth * 3602879701896397\<close>; it is rounded to 53 significant bits. (For an
  integer width the product is far from the overflow and underflow ranges.)
\<close>

fun bit_length :: "nat \<Rightarrow> nat" where
  "bit_length n = (if n = 0 then 0 else Suc (bit_length (n div 2)))"

definition round53 :: "nat \<Rightarrow> nat" where
  \<comment> \<open>the nearest integer with at most 53 significant bits, ties to the even significand\<close>
  "round53 n =
     (if bit_length n \<le> 53 then n
      else let k = bit_length n - 53;
               q = n div 2 ^ k;
               r = n mod 2 ^ k;
               half = 2 ^ (k - 1)
           in (if r > half \<or> (r = half \<and> odd q) then q + 1 else q) * 2 ^ k)"

definition times_tenth :: "nat \<Rightarrow> rat" where
  \<comment> \<open>\<open>editorWidth * 0.1\<close>\<close>
  "times_tenth editorWidth = of_nat (round53 (editorWidth * 3602879701896397)) / 2 ^ 55"

section \<open>The plugin\<close>

text \<open>
  The two floating elements are single nodes, created once by \<open>createFloatingElements\<close>.
  A DOM node has at most one parent: \<open>childNodes\<close> gives the children of each editor
  container, \<open>remove()\<close> takes a node out of the list it is in, and \<open>appendChild\<close> moves
  it to the end of its new parent's list. \<open>headerList\<close> holds the children of the heading
  list. The style values the source never changes are left out. The listeners are the
  callbacks registered on the workspace's events, in the order of registration.
\<close>

datatype node = MenuContainer | TopButton | HostNode nat

datatype listener = UpdateMenu | RefreshHeaderListDebounced | PositionFloatingElements nat

record plugin =
  plugin_settings :: settings
  childNodes :: "nat \<Rightarrow> node list"
  headerList :: "headerItem list"
  menuContainer_display :: string
  menuContainer_width :: "rat option"
  menuContainer_bottom :: "nat option"
  menuContainer_right :: "nat option"
  topButton_width :: "rat option"
  topButton_bottom :: "nat option"
  topButton_right :: "nat option"
  activeLeafChange :: "listener list"
  layoutChange :: "listener list"
  editorChange :: "listener list"

definition onload :: "stored option \<Rightarrow> (nat \<Rightarrow> node list) \<Rightarrow> plugin" where
  \<comment> \<open>the plugin after \<open>onload\<close>: settings loaded, the floating elements created and
      detached, the three listeners registered\<close>
  "onload loadData nodes =
     \<lparr>plugin_settings = loadSettings loadData,
      childNodes = nodes,
      headerList = [],
      menuContainer_display = ''none'',
      menuContainer_width = None,
      menuContainer_bottom = None,
      menuContainer_right = None,
      topButton_width = None,
      topButton_bottom = None,
      topButton_right = None,
      activeLeafChange = [UpdateMenu],
      layoutChange = [UpdateMenu],
      editorChange = [RefreshHeaderListDebounced]\<rparr>"

definition removeNode :: "node \<Rightarrow> plugin \<Rightarrow> plugin" where
  \<comment> \<open>\<open>node.remove()\<close>\<close>
  "removeNode n p = p\<lparr>childNodes := (\<lambda>c. removeAll n (childNodes p c))\<rparr>"

definition appendChild :: "nat \<Rightarrow> node \<Rightarrow> plugin \<Rightarrow> plugin" where
  \<comment> \<open>\<open>container.appendChild(node)\<close>: the node leaves the parent it has and becomes the
      last child of the container\<close>
  "appendChild c n p =
     (let p1 = removeNode n p
      in p1\<lparr>childNodes := (childNodes p1)(c := childNodes p1 c @ [n])\<rparr>)"

definition removeFloatingElements :: "plugin \<Rightarrow> plugin" where
  \<comment> \<open>\<open>menuContainer?.remove()\<close>, then \<open>topButton?.remove()\<close>\<close>
  "removeFloatingElements p = removeNode TopButton (removeNode MenuContainer p)"

definition positionFloatingElements :: "workspace \<Rightarrow> nat \<Rightarrow> plugin \<Rightarrow> plugin" where
  \<comment> \<open>the style values are lengths in \<open>px\<close>\<close>
  "positionFloatingElements ws editorContainer p =
     (let editorWidth = clientWidth ws editorContainer;
          menuWidth = max 120 (times_tenth editorWidth)
      in p\<lparr>menuContainer_width := Some menuWidth,
           menuContainer_bottom := Some 75,
           menuContainer_right := Some 30,
           topButton_right := Some 30,
           topButton_bottom := Some 30,
           topButton_width := Some menuWidth\<rparr>)"

definition refreshHeaderList :: "workspace \<Rightarrow> plugin \<Rightarrow> plugin" where
  \<comment> \<open>the list is emptied first; each of the two tests returns early\<close>
  "refreshHeaderList ws p0 =
     (let p = p0\<lparr>headerList := []\<rparr>
      in case getActiveFile ws of
           None \<Rightarrow> p
         | Some activeFile \<Rightarrow>
             (case cmEditor ws of
                None \<Rightarrow> p
              | Some doc \<Rightarrow>
                  p\<lparr>headerList :=
                      forEachLine (plugin_settings p) (split_newline doc) (headerList p)\<rparr>))"

definition isSourceMode :: "workspace \<Rightarrow> js_error + bool" where
  \<comment> \<open>\<open>activeLeaf?.view?.getMode() === 'source'\<close>\<close>
  "isSourceMode ws =
     (case activeView ws of
        None \<Rightarrow> Inr False
      | Some v \<Rightarrow> (case getMode v of None \<Rightarrow> Inl TypeError | Some m \<Rightarrow> Inr (m = ''source'')))"

definition isMarkdown :: "workspace \<Rightarrow> bool" where
  \<comment> \<open>\<open>activeLeaf?.view?.getViewType() === 'markdown'\<close>\<close>
  "isMarkdown ws =
     (case activeView ws of None \<Rightarrow> False | Some v \<Rightarrow> getViewType v = ''markdown'')"

definition querySelector :: "workspace \<Rightarrow> nat option" where
  \<comment> \<open>\<open>activeLeaf.view.containerEl?.querySelector('.cm-s-obsidian')\<close>\<close>
  "querySelector ws =
     (case activeView ws of
        None \<Rightarrow> None
      | Some v \<Rightarrow> (case containerEl v of None \<Rightarrow> None | Some found \<Rightarrow> found))"

definition updateMenu :: "workspace \<Rightarrow> plugin \<Rightarrow> js_error + plugin" where
  \<comment> \<open>both tests are evaluated before the \<open>if\<close>, so \<open>getMode\<close> is called whatever the
      view's type is. An error ends the handler (\<open>Inl\<close>); the state it leaves is not
      modelled\<close>
  "updateMenu ws p0 =
     (let p = removeFloatingElements p0
      in case isSourceMode ws of
           Inl e \<Rightarrow> Inl e
         | Inr inSourceMode \<Rightarrow>
             if isMarkdown ws \<and> inSourceMode then
               (case querySelector ws of
                  None \<Rightarrow> Inr p
                | Some editorContainer \<Rightarrow>
                    (let p1 = appendChild editorContainer TopButton p;
                         p2 = positionFloatingElements ws editorContainer p1
                     in if enableHeaderMenu (plugin_settings p2) then
                          (let p3 = appendChild editorContainer MenuContainer p2;
                               p4 = p3\<lparr>menuContainer_display := ''block''\<rparr>;
                               p5 = refreshHeaderList ws p4
                           in Inr (p5\<lparr>layoutChange :=
                                        layoutChange p5 @ [PositionFloatingElements editorContainer]\<rparr>))
                        else Inr p2))
             else Inr p)"

fun updateMenuTimes :: "nat \<Rightarrow> workspace \<Rightarrow> plugin \<Rightarrow> js_error + plugin" where
  \<comment> \<open>the same event arriving \<open>n\<close> times while the workspace stays as it is\<close>
  "updateMenuTimes 0 ws p = Inr p"
| "updateMenuTimes (Suc n) ws p =
     (case updateMenu ws p of Inl e \<Rightarrow> Inl e | Inr p' \<Rightarrow> updateMenuTimes n ws p')"

text \<open>
  The handlers of the settings tab in full: the settings are written, saved, and
  \<open>updateMenu\<close> runs (\<open>display()\<close> then rebuilds the panel from the settings). The result is
  the plugin and what \<open>saveData\<close> stored.
\<close>

definition enableHeaderMenuToggled :: "bool \<Rightarrow> workspace \<Rightarrow> plugin \<Rightarrow> js_error + plugin \<times> stored" where
  "enableHeaderMenuToggled value ws p =
     (let p1 = p\<lparr>plugin_settings := onChangeEnableHeaderMenu value (plugin_settings p)\<rparr>
      in case updateMenu ws p1 of
           Inl e \<Rightarrow> Inl e
         | Inr p2 \<Rightarrow> Inr (p2, saveSettings (plugin_settings p1)))"

definition showToggled :: "tier \<Rightarrow> bool \<Rightarrow> workspace \<Rightarrow> plugin \<Rightarrow> js_error + plugin \<times> stored" where
  "showToggled level value ws p =
     (let p1 = p\<lparr>plugin_settings := onChangeShow level value (plugin_settings p)\<rparr>
      in case updateMenu ws p1 of
           Inl e \<Rightarrow> Inl e
         | Inr p2 \<Rightarrow> Inr (p2, saveSettings (plugin_settings p1)))"

section \<open>Timers and the debounced trigger\<close>

text \<open>
  The host's timers, in logical time: \<open>setTimeout\<close> schedules a callback for the instant
  \<open>delay\<close> units after the current one and returns its handle, \<open>clearTimeout\<close> drops the
  callback of a handle (and does nothing for \<open>undefined\<close> or for a handle that has run),
  and when a unit of time passes the callbacks that have come due run, in the order they
  were scheduled. A callback acts on the state \<open>world\<close>; \<open>ran\<close> logs the instant of every
  run.
\<close>

record 'w timers =
  clock :: nat
  nextTimer :: nat
  scheduled :: "(nat \<times> nat \<times> ('w \<Rightarrow> 'w)) list"
  world :: 'w
  ran :: "nat list"

definition setTimeout :: "('w \<Rightarrow> 'w) \<Rightarrow> nat \<Rightarrow> 'w timers \<Rightarrow> nat \<times> 'w timers" where
  "setTimeout callback delay h =
     (nextTimer h,
      h\<lparr>nextTimer := Suc (nextTimer h),
        scheduled := scheduled h @ [(nextTimer h, clock h + delay, callback)]\<rparr>)"

definition clearTimeout :: "nat option \<Rightarrow> 'w timers \<Rightarrow> 'w timers" where
  "clearTimeout timer h =
     (case timer of
        None \<Rightarrow> h
      | Some t \<Rightarrow> h\<lparr>scheduled := [e \<leftarrow> scheduled h. fst e \<noteq> t]\<rparr>)"

definition debounce :: "('w \<Rightarrow> 'w) \<Rightarrow> nat \<Rightarrow> nat option \<times> 'w timers \<Rightarrow> nat option \<times> 'w timers" where
  \<comment> \<open>one call of the function \<open>debounce(func, delay)\<close> returns; the first component of the
      state is its variable \<open>timer\<close>\<close>
  "debounce func delay = (\<lambda>(timer, h).
     (let (t, h') = setTimeout func delay (clearTimeout timer h)
      in (Some t, h')))"

definition refreshHeaderListDebounced ::
    "workspace \<Rightarrow> nat option \<times> plugin timers \<Rightarrow> nat option \<times> plugin timers" where
  \<comment> \<open>the trigger \<open>onload\<close> builds for \<open>editor-change\<close>. Its action tests
      \<open>headerList?.parentElement\<close> first; \<open>headerList\<close> is a child of \<open>menuContainer\<close> from
      \<open>createFloatingElements\<close> on, so the test holds and the action is the refresh\<close>
  "refreshHeaderListDebounced ws = debounce (refreshHeaderList ws) 150"

definition runDue :: "'w timers \<Rightarrow> 'w timers" where
  "runDue h =
     (let due = [e \<leftarrow> scheduled h. fst (snd e) \<le> clock h]
      in h\<lparr>scheduled := [e \<leftarrow> scheduled h. \<not> fst (snd e) \<le> clock h],
           world := fold (\<lambda>e w. snd (snd e) w) due (world h),
           ran := ran h @ map (\<lambda>e. clock h) due\<rparr>)"

definition tick :: "'w timers \<Rightarrow> 'w timers" where
  \<comment> \<open>one unit of time passes\<close>
  "tick h = runDue (h\<lparr>clock := Suc (clock h)\<rparr>)"

text \<open>
  A history of the trigger: calls of the debounced function, and time passing between
  them.
\<close>

datatype event = Invoke | Wait nat

fun step :: "('w \<Rightarrow> 'w) \<Rightarrow> nat \<Rightarrow> event \<Rightarrow> nat option \<times> 'w timers \<Rightarrow> nat option \<times> 'w timers" where
  "step func delay Invoke s = debounce func delay s"
| "step func delay (Wait n) s = (fst s, (tick ^^ n) (snd s))"

definition run :: "('w \<Rightarrow> 'w) \<Rightarrow> nat \<Rightarrow> event list \<Rightarrow> nat option \<times> 'w timers \<Rightarrow> nat option \<times> 'w timers" where
  "run func delay events s = fold (step func delay) events s"

definition idle :: "nat \<Rightarrow> 'w \<Rightarrow> nat option \<times> 'w timers" where
  \<comment> \<open>before the first call: \<open>timer\<close> undefined, nothing scheduled\<close>
  "idle t w = (None, \<lparr>clock = t, nextTimer = 0, scheduled = [], world = w, ran = []\<rparr>)"

section \<open>The properties, in the words of the specification\<close>

subsection \<open>The heading pattern\<close>

definition leadingHashes :: "jsstring \<Rightarrow> nat" where
  "leadingHashes line = length (takeWhile isHash line)"

definition spec_heading :: "jsstring \<Rightarrow> (nat \<times> jsstring) option" where
  \<comment> \<open>a line matches when it starts with one to six \<open>#\<close> followed by whitespace; its level
      is the number of leading \<open>#\<close>, its text the remainder of the line after the first run
      of whitespace\<close>
  "spec_heading line =
     (let n = leadingHashes line in
      case drop n line of
        [] \<Rightarrow> None
      | c # cs \<Rightarrow>
          if 1 \<le> n \<and> n \<le> 6 \<and> isWhiteSpace c
          then Some (n, dropWhile isWhiteSpace (c # cs))
          else None)"

definition spec_headings :: "jsstring list \<Rightarrow> (nat \<times> jsstring \<times> nat) list" where
  \<comment> \<open>one record per matching line, in document order\<close>
  "spec_headings lines =
     [(level, text, index).
        (line, index) \<leftarrow> zip lines [0 ..< length lines],
        (level, text) \<leftarrow> (case spec_heading line of None \<Rightarrow> [] | Some r \<Rightarrow> [r])]"

definition untilLineTerminator :: "jsstring \<Rightarrow> jsstring" where
  \<comment> \<open>the part of a string before its first line terminator, the whole string if it has none\<close>
  "untilLineTerminator s = takeWhile (\<lambda>c. \<not> isLineTerminator c) s"

subsection \<open>The coupling of the settings\<close>

definition coupled :: "settings \<Rightarrow> bool" where
  "coupled s = (enableHeaderMenu s \<or> (\<not> showH1 s \<and> \<not> showH2 s \<and> \<not> showH3 s))"

inductive reachable :: "settings \<Rightarrow> bool" where
  \<comment> \<open>the settings the plugin gets to from a first start, by its toggles and by saving
      and loading again\<close>
  first_start: "reachable (loadSettings None)"
| menu_toggle: "reachable s \<Longrightarrow> reachable (onChangeEnableHeaderMenu value s)"
| tier_toggle: "reachable s \<Longrightarrow> enableHeaderMenu s \<Longrightarrow> reachable (onChangeShow level value s)"
| restart: "reachable s \<Longrightarrow> reachable (loadSettings (Some (saveSettings s)))"

subsection \<open>The states of the overlay\<close>

definition viewHasMode :: "workspace \<Rightarrow> bool" where
  \<comment> \<open>the active view, if there is one, has the \<open>getMode\<close> method\<close>
  "viewHasMode ws = (case activeView ws of None \<Rightarrow> True | Some v \<Rightarrow> getMode v \<noteq> None)"

definition editorSurface :: "workspace \<Rightarrow> nat option" where
  \<comment> \<open>the container of the editable markdown surface in source mode, if there is one\<close>
  "editorSurface ws =
     (if isMarkdown ws \<and> isSourceMode ws = Inr True then querySelector ws else None)"

definition overlay_hidden :: "plugin \<Rightarrow> bool" where
  \<comment> \<open>the state Hidden: neither floating element is attached anywhere\<close>
  "overlay_hidden p =
     (\<forall>c. MenuContainer \<notin> set (childNodes p c) \<and> TopButton \<notin> set (childNodes p c))"

definition overlay_at :: "nat \<Rightarrow> (nat \<Rightarrow> node list) \<Rightarrow> nat \<Rightarrow> node list" where
  \<comment> \<open>the child lists once the overlay is attached to container \<open>c\<close>\<close>
  "overlay_at c nodes =
     (\<lambda>c'. [n \<leftarrow> nodes c'. n \<noteq> MenuContainer \<and> n \<noteq> TopButton] @
           (if c' = c then [TopButton, MenuContainer] else []))"

subsection \<open>The debounced trigger between a call and its run\<close>

definition waiting :: "('w \<Rightarrow> 'w) \<Rightarrow> nat \<Rightarrow> nat option \<times> 'w timers \<Rightarrow> bool" where
  \<comment> \<open>right after a call: the one scheduled callback is \<open>func\<close>, due a full delay from now,
      and \<open>timer\<close> holds its handle\<close>
  "waiting func delay s =
     (case fst s of
        None \<Rightarrow> False
      | Some t \<Rightarrow> scheduled (snd s) = [(t, clock (snd s) + delay, func)])"

section \<open>Example inputs\<close>

definition example_document :: jsstring where
  \<comment> \<open>the specification's example document\<close>
  "example_document =
     js ''# Intro'' @ [0x000A] @ js ''text'' @ [0x000A] @ js ''## Setup'' @ [0x000A] @
     js ''### Details'' @ [0x000A] @ js ''#### Skip'' @ [0x000A]"

definition malformed_lines :: "jsstring list" where
  "malformed_lines = [js ''####### x'', js ''#x'', js ''#'', js ''# '']"

definition four_levels :: "jsstring list" where
  "four_levels = [js ''# A'', js ''## B'', js ''### C'', js ''#### D'']"

definition hide_h1 :: settings where
  "hide_h1 = \<lparr>enableHeaderMenu = True, showH1 = False, showH2 = True, showH3 = True,
               previousShowH1 = None, previousShowH2 = None, previousShowH3 = None\<rparr>"

definition stored_menu_off :: stored where
  "stored_menu_off =
     \<lparr>stored_enableHeaderMenu = Some False,
      stored_showH1 = None, stored_showH2 = None, stored_showH3 = None,
      stored_previousShowH1 = None, stored_previousShowH2 = None, stored_previousShowH3 = None\<rparr>"

definition h2_only :: settings where
  "h2_only =
     \<lparr>enableHeaderMenu = True, showH1 = False, showH2 = True, showH3 = False,
      previousShowH1 = None, previousShowH2 = None, previousShowH3 = None\<rparr>"

definition markdown_view :: host_view where
  "markdown_view =
     \<lparr>getViewType = ''markdown'', getMode = Some ''source'',
      containerEl = Some (Some 7), sourceMode = Some (Some example_document)\<rparr>"

definition editing :: workspace where
  \<comment> \<open>a note open in source mode, its editor container 1000 units wide\<close>
  "editing =
     \<lparr>activeLeaf = Some \<lparr>leaf_view = Some markdown_view\<rparr>,
      getActiveFile = Some ''notes'',
      clientWidth = (\<lambda>c. 1000)\<rparr>"

definition no_file :: workspace where
  \<comment> \<open>a markdown surface in source mode with its container, but no active file and no
      editor handle\<close>
  "no_file =
     \<lparr>activeLeaf = Some \<lparr>leaf_view = Some (markdown_view\<lparr>sourceMode := None\<rparr>)\<rparr>,
      getActiveFile = None,
      clientWidth = (\<lambda>c. 1000)\<rparr>"

definition no_leaf :: workspace where
  "no_leaf = \<lparr>activeLeaf = None, getActiveFile = None, clientWidth = (\<lambda>c. 1000)\<rparr>"

definition graph_view :: workspace where
  \<comment> \<open>a view of another type, which has no \<open>getMode\<close>\<close>
  "graph_view =
     \<lparr>activeLeaf = Some \<lparr>leaf_view = Some \<lparr>getViewType = ''graph'', getMode = None,
                                             containerEl = None, sourceMode = None\<rparr>\<rparr>,
      getActiveFile = None,
      clientWidth = (\<lambda>c. 1000)\<rparr>"

definition fresh :: plugin where
  \<comment> \<open>the plugin right after \<open>onload\<close>, nothing stored, an empty editor container\<close>
  "fresh = onload None (\<lambda>c. [])"

definition populated :: plugin where
  "populated = fresh\<lparr>headerList := [createHeaderItem 1 (js ''Intro'') 0]\<rparr>"

definition no_file_attached :: plugin where
  \<comment> \<open>what \<open>updateMenu\<close> leaves when only the active file and the editor handle are missing\<close>
  "no_file_attached =
     fresh\<lparr>childNodes := (\<lambda>c. if c = 7 then [TopButton, MenuContainer] else []),
           menuContainer_display := ''block'',
           menuContainer_width := Some 120,
           menuContainer_bottom := Some 75,
           menuContainer_right := Some 30,
           topButton_width := Some 120,
           topButton_bottom := Some 30,
           topButton_right := Some 30,
           layoutChange := [UpdateMenu, PositionFloatingElements 7]\<rparr>"

section \<open>Auxiliary definitions\<close>

definition tails :: "jsstring \<Rightarrow> nat \<Rightarrow> (nat \<times> nat \<times> nat) list" where
  \<comment> \<open>the combinations the pattern tries once \<open>k1\<close> characters are taken as \<open>#\<close>\<close>
  "tails line k1 =
     [(k1, k2, k3).
        k2 \<leftarrow> greedy isWhiteSpace 1 None (drop k1 line),
        k3 \<leftarrow> greedy isDot 0 None (drop (k1 + k2) line)]"

section \<open>Properties of the heading pattern\<close>

lemma hash_not_space: "isHash c \<Longrightarrow> \<not> isWhiteSpace c"
  by (simp add: isHash_def isWhiteSpace_def isLineTerminator_def)

lemma greedy_cases:
  "greedy p lo hi s =
     (let top = (case hi of None \<Rightarrow> length (takeWhile p s)
                          | Some h \<Rightarrow> min h (length (takeWhile p s)))
      in if top < lo then [] else top # rev [lo ..< top])"
  by (auto simp: greedy_def Let_def)

lemma greedy_from_0: "greedy p 0 None s = length (takeWhile p s) # rev [0 ..< length (takeWhile p s)]"
  by (simp add: greedy_cases Let_def)

lemma greedy_from_1:
  "greedy p (Suc 0) None s =
     (if takeWhile p s = [] then []
      else length (takeWhile p s) # rev [Suc 0 ..< length (takeWhile p s)])"
  by (auto simp: greedy_cases Let_def)

lemma greedy_hashes:
  "greedy isHash (Suc 0) (Some 6) line =
     (if leadingHashes line = 0 then []
      else min 6 (leadingHashes line) # rev [Suc 0 ..< min 6 (leadingHashes line)])"
  by (auto simp: greedy_cases leadingHashes_def Let_def min_def split: if_splits)

lemma drop_in_run:
  assumes "k < length (takeWhile p s)"
  shows "\<exists>c cs. drop k s = c # cs \<and> p c"
proof -
  have k: "k < length s" using assms length_takeWhile_le [of p s] by (rule less_le_trans)
  have "p (s ! k)" using assms
    by (metis nth_mem set_takeWhileD takeWhile_nth)
  moreover have "drop k s = s ! k # drop (Suc k) s" using k by (simp add: Cons_nth_drop_Suc)
  ultimately show ?thesis by blast
qed

lemma no_space_inside_hashes:
  assumes "k < leadingHashes line"
  shows "greedy isWhiteSpace (Suc 0) None (drop k line) = []"
proof -
  obtain c cs where d: "drop k line = c # cs" and h: "isHash c"
    using drop_in_run [of k isHash line] assms by (auto simp: leadingHashes_def)
  show ?thesis by (simp add: greedy_from_1 d hash_not_space [OF h])
qed

lemma tails_inside: "k < leadingHashes line \<Longrightarrow> tails line k = []"
  by (simp add: tails_def no_space_inside_hashes)

lemma tails_inside_all: "\<forall>k \<in> set ks. k < leadingHashes line \<Longrightarrow> concat (map (tails line) ks) = []"
  by (induction ks) (simp_all add: tails_inside)

lemma tails_at_run:
  "tails line k =
     (let rest = drop k line; w = length (takeWhile isWhiteSpace rest) in
      if w = 0 then []
      else (k, w, length (takeWhile isDot (drop w rest))) # tl (tails line k))"
  by (simp add: tails_def greedy_from_1 greedy_from_0 Let_def add.commute)

lemma headerMatch_tails:
  "headerMatch line =
     (case concat (map (tails line) (greedy isHash (Suc 0) (Some 6) line)) of
        [] \<Rightarrow> None
      | (k1, k2, k3) # _ \<Rightarrow> Some (take k1 line, take k3 (drop (k1 + k2) line)))"
  by (simp add: headerMatch_def tails_def [abs_def])

lemma headerMatch_eq:
  "headerMatch line =
     (let n = leadingHashes line; rest = drop n line in
      if 1 \<le> n \<and> n \<le> 6 \<and> rest \<noteq> [] \<and> isWhiteSpace (hd rest)
      then Some (take n line, untilLineTerminator (dropWhile isWhiteSpace rest))
      else None)"
proof -
  let ?n = "leadingHashes line"
  consider (none) "?n = 0" | (many) "7 \<le> ?n" | (some) "1 \<le> ?n" "?n \<le> 6" by linarith
  then show ?thesis
  proof cases
    case none
    then show ?thesis by (simp add: headerMatch_tails greedy_hashes)
  next
    case many
    have "\<forall>k \<in> set (greedy isHash (Suc 0) (Some 6) line). k < ?n"
      using many by (auto simp: greedy_def Let_def)
    then have e: "concat (map (tails line) (greedy isHash (Suc 0) (Some 6) line)) = []"
      by (rule tails_inside_all)
    show ?thesis unfolding headerMatch_tails e using many by simp
  next
    case some
    then have g: "greedy isHash (Suc 0) (Some 6) line = ?n # rev [Suc 0 ..< ?n]"
      by (simp add: greedy_hashes)
    have "\<forall>k \<in> set (rev [Suc 0 ..< ?n]). k < ?n" by auto
    then have rest: "concat (map (tails line) (rev [Suc 0 ..< ?n])) = []"
      by (rule tails_inside_all)
    have c: "concat (map (tails line) (greedy isHash (Suc 0) (Some 6) line)) = tails line ?n"
      by (simp add: g rest)
    let ?rest = "drop ?n line"
    show ?thesis
    proof (cases "takeWhile isWhiteSpace ?rest = []")
      case True
      then have "?rest = [] \<or> \<not> isWhiteSpace (hd ?rest)"
        by (cases ?rest) (auto split: if_splits)
      moreover have "tails line ?n = []" using True by (simp add: tails_def greedy_from_1)
      ultimately show ?thesis using some by (auto simp: headerMatch_tails c Let_def)
    next
      case False
      then have ne: "?rest \<noteq> []" and ws: "isWhiteSpace (hd ?rest)"
        by (cases ?rest; auto split: if_splits)+
      let ?w = "length (takeWhile isWhiteSpace ?rest)"
      have w: "?w \<noteq> 0" using False by simp
      have t: "tails line ?n = (?n, ?w, length (takeWhile isDot (drop ?w ?rest))) # tl (tails line ?n)"
        using w tails_at_run [of line ?n] by (simp add: Let_def)
      have d: "drop ?w ?rest = dropWhile isWhiteSpace ?rest"
        by (metis dropWhile_eq_drop)
      have "headerMatch line = Some (take ?n line, take (length (takeWhile isDot (drop ?w ?rest))) (drop (?n + ?w) line))"
        unfolding headerMatch_tails c by (subst t) simp
      also have "drop (?n + ?w) line = drop ?w ?rest" by (simp add: add.commute)
      also have "take (length (takeWhile isDot (drop ?w ?rest))) (drop ?w ?rest) = takeWhile isDot (dropWhile isWhiteSpace ?rest)"
        unfolding d by (metis takeWhile_eq_take)
      finally show ?thesis using some ne ws by (simp add: Let_def untilLineTerminator_def isDot_def [abs_def])
    qed
  qed
qed

lemma leadingHashes_le: "leadingHashes line \<le> length line"
  by (simp add: leadingHashes_def length_takeWhile_le)

lemma takeWhile_isHash: "takeWhile isHash line = replicate (length (takeWhile isHash line)) 0x23"
  by (induction line) (simp_all add: isHash_def)

lemma take_leadingHashes: "take (leadingHashes line) line = replicate (leadingHashes line) 0x23"
proof -
  have "take (leadingHashes line) line = takeWhile isHash line"
    unfolding leadingHashes_def by (rule takeWhile_eq_take [symmetric])
  then show ?thesis
    using takeWhile_isHash [of line] by (simp add: leadingHashes_def)
qed

lemma headerMatch_spec:
  "headerMatch line =
     map_option (\<lambda>(n, r). (replicate n 0x23, untilLineTerminator r)) (spec_heading line)"
  by (cases "drop (leadingHashes line) line")
     (auto simp: headerMatch_eq spec_heading_def Let_def take_leadingHashes)

lemma headerMatch_level:
  "(case headerMatch line of None \<Rightarrow> [] | Some (h, t) \<Rightarrow> [(length h, t)]) =
   (case spec_heading line of None \<Rightarrow> [] | Some (n, r) \<Rightarrow> [(n, untilLineTerminator r)])"
  by (simp add: headerMatch_spec split: option.splits)

lemma records_of_pairs:
  "[(length h, t, i). (line, i) \<leftarrow> ps, (h, t) \<leftarrow> (case headerMatch line of None \<Rightarrow> [] | Some m \<Rightarrow> [m])] =
   [(n, untilLineTerminator r, i).
      (n, r, i) \<leftarrow> [(n, r, i). (line, i) \<leftarrow> ps, (n, r) \<leftarrow> (case spec_heading line of None \<Rightarrow> [] | Some m \<Rightarrow> [m])]]"
  by (induction ps) (auto simp: headerMatch_spec split: option.splits)

lemma headingRecords_spec:
  "headingRecords lines = [(n, untilLineTerminator r, i). (n, r, i) \<leftarrow> spec_headings lines]"
  unfolding headingRecords_def spec_headings_def by (rule records_of_pairs)

lemma fold_appendHeader:
  "fold (appendHeader s) ps items =
     items @ [createHeaderItem l t i.
                (l, t, i) \<leftarrow> [(length h, t, i). (line, i) \<leftarrow> ps,
                                 (h, t) \<leftarrow> (case headerMatch line of None \<Rightarrow> [] | Some m \<Rightarrow> [m])],
                \<not> tierHidden s l]"
  by (induction ps arbitrary: items) (auto simp: appendHeader_def split: option.splits)

lemma forEachLine_records:
  "forEachLine s lines items =
     items @ [createHeaderItem l t i. (l, t, i) \<leftarrow> headingRecords lines, \<not> tierHidden s l]"
  unfolding forEachLine_def headingRecords_def by (rule fold_appendHeader)

lemma untilLineTerminator_id:
  "\<forall>c \<in> set s. \<not> isLineTerminator c \<Longrightarrow> untilLineTerminator s = s"
  by (simp add: untilLineTerminator_def)

lemmas char_defs = js_def isHash_def isWhiteSpace_def isDot_def isLineTerminator_def
lemmas match_defs = headerMatch_def greedy_def char_defs

lemma zip_index_set: "set (zip xs [0 ..< length xs]) = {(xs ! i, i) | i. i < length xs}"
  by (auto simp: set_zip)

lemma headingRecords_set:
  "set (headingRecords lines) =
     {(length h, t, i) | h t i. i < length lines \<and> headerMatch (lines ! i) = Some (h, t)}"
  unfolding headingRecords_def
  by (auto simp: zip_index_set split: option.splits) force

lemma concat_split_newline: "concat (split_newline doc) = filter (\<lambda>c. c \<noteq> 0x000A) doc"
  by (induction doc) (auto split: list.splits)

lemma split_newline_chars:
  "line \<in> set (split_newline doc) \<Longrightarrow> c \<in> set line \<Longrightarrow> c \<in> set doc \<and> c \<noteq> 0x000A"
proof -
  assume "line \<in> set (split_newline doc)" and "c \<in> set line"
  then have "c \<in> set (concat (split_newline doc))" by auto
  then show ?thesis by (simp add: concat_split_newline)
qed

lemma spec_heading_chars: "spec_heading line = Some (n, r) \<Longrightarrow> set r \<subseteq> set line"
proof -
  assume a: "spec_heading line = Some (n, r)"
  then have "r = dropWhile isWhiteSpace (drop (leadingHashes line) line)"
    by (auto simp: spec_heading_def Let_def split: list.splits if_splits)
  then show ?thesis
    by (metis set_dropWhileD set_drop_subset subsetI subsetD)
qed

lemma spec_headings_set:
  "(n, r, i) \<in> set (spec_headings lines) \<Longrightarrow> \<exists>line \<in> set lines. spec_heading line = Some (n, r)"
  unfolding spec_headings_def
  by (auto simp: set_zip split: option.splits)

lemma map_id_on: "(\<And>x. x \<in> set xs \<Longrightarrow> f x = x) \<Longrightarrow> map f xs = xs"
  by (induction xs) auto

lemma example_lines:
  "split_newline example_document =
     [js ''# Intro'', js ''text'', js ''## Setup'', js ''### Details'', js ''#### Skip'', []]"
  by (simp add: example_document_def js_def)

lemma example_spec_headings:
  "spec_headings (split_newline example_document) =
     [(1, js ''Intro'', 0), (2, js ''Setup'', 2), (3, js ''Details'', 3), (4, js ''Skip'', 4)]"
  unfolding example_lines
  by (simp add: spec_headings_def spec_heading_def leadingHashes_def char_defs upt_rec)

text \<open>
  Claim C1, as the code has it. For every document text, the matching step of
  \<open>refreshHeaderList\<close> yields exactly one record per line that starts with one to six
  \<open>#\<close> followed by whitespace, in document order; the record's level is the number of
  leading \<open>#\<close>, and its text is the remainder of the line after the first run of
  whitespace, cut at the first line terminator (CR, U+2028, U+2029) if the remainder has
  one. For a document whose only line terminators are its line feeds the text is the
  whole remainder.
\<close>

theorem heading_extraction:
  "headingRecords (split_newline text) =
     [(level, untilLineTerminator rest, index).
        (level, rest, index) \<leftarrow> spec_headings (split_newline text)] \<and>
   ((\<forall>c \<in> set text. c = 0x000A \<or> \<not> isLineTerminator c) \<longrightarrow>
      headingRecords (split_newline text) = spec_headings (split_newline text))"
proof (intro conjI impI)
  show eq: "headingRecords (split_newline text) =
     [(level, untilLineTerminator rest, index).
        (level, rest, index) \<leftarrow> spec_headings (split_newline text)]"
    by (rule headingRecords_spec)
  assume clean: "\<forall>c \<in> set text. c = 0x000A \<or> \<not> isLineTerminator c"
  have "\<And>x. x \<in> set (spec_headings (split_newline text)) \<Longrightarrow>
          (\<lambda>(level, rest, index). (level, untilLineTerminator rest, index)) x = x"
  proof -
    fix x assume x: "x \<in> set (spec_headings (split_newline text))"
    obtain n r i where xe: "x = (n, r, i)" by (cases x) auto
    from x xe obtain line where l: "line \<in> set (split_newline text)" and s: "spec_heading line = Some (n, r)"
      using spec_headings_set by blast
    have "\<forall>c \<in> set r. \<not> isLineTerminator c"
      using spec_heading_chars [OF s] split_newline_chars [OF l] clean by blast
    then show "(\<lambda>(level, rest, index). (level, untilLineTerminator rest, index)) x = x"
      by (simp add: xe untilLineTerminator_id)
  qed
  then have "map (\<lambda>(level, rest, index). (level, untilLineTerminator rest, index))
               (spec_headings (split_newline text)) = spec_headings (split_newline text)"
    by (rule map_id_on)
  then show "headingRecords (split_newline text) = spec_headings (split_newline text)"
    using eq by (simp add: concat_map_singleton split_def)
qed

theorem heading_extraction_witness:
  "headingRecords (split_newline example_document) =
     [(1, js ''Intro'', 0), (2, js ''Setup'', 2), (3, js ''Details'', 3), (4, js ''Skip'', 4)]"
proof -
  have clean: "\<forall>c \<in> set example_document. c = 0x000A \<or> \<not> isLineTerminator c"
    by (simp add: example_document_def js_def isLineTerminator_def)
  from heading_extraction [of example_document] clean
  have "headingRecords (split_newline example_document) = spec_headings (split_newline example_document)"
    by blast
  then show ?thesis by (simp only: example_spec_headings)
qed

theorem heading_text_counterexample:
  "headingRecords (split_newline (js ''# a'' @ [0x2028] @ js ''b'')) \<noteq>
   spec_headings (split_newline (js ''# a'' @ [0x2028] @ js ''b''))"
proof -
  have l: "split_newline (js ''# a'' @ [0x2028] @ js ''b'') = [js ''# a'' @ [0x2028] @ js ''b'']"
    by (simp add: js_def)
  have a: "headingRecords [js ''# a'' @ [0x2028] @ js ''b''] = [(1, js ''a'', 0)]"
    by (simp add: headingRecords_def match_defs)
  have b: "spec_headings [js ''# a'' @ [0x2028] @ js ''b''] = [(1, js ''a'' @ [0x2028] @ js ''b'', 0)]"
    by (simp add: spec_headings_def spec_heading_def leadingHashes_def char_defs)
  show ?thesis unfolding l a b by (simp add: js_def)
qed

lemma headerMatch_None_iff:
  "headerMatch line = None \<longleftrightarrow>
     \<not> (1 \<le> leadingHashes line \<and> leadingHashes line \<le> 6 \<and>
        (case drop (leadingHashes line) line of [] \<Rightarrow> False | c # cs \<Rightarrow> isWhiteSpace c))"
  by (auto simp: headerMatch_spec spec_heading_def Let_def split: list.splits)

lemma leadingHashes_blank:
  assumes "ws \<noteq> []" and "\<forall>c \<in> set ws. isWhiteSpace c"
  shows "leadingHashes (replicate n 0x23 @ ws) = n"
proof -
  obtain c cs where ws: "ws = c # cs" using assms(1) by (cases ws) auto
  then have "\<not> isHash c" using assms(2) hash_not_space by auto
  then show ?thesis
    by (simp add: leadingHashes_def ws takeWhile_append isHash_def)
qed

lemma headerMatch_blank:
  assumes "1 \<le> n" and "n \<le> 6" and "ws \<noteq> []" and "\<forall>c \<in> set ws. isWhiteSpace c"
  shows "headerMatch (replicate n 0x23 @ ws) = Some (replicate n 0x23, [])"
proof -
  have n: "leadingHashes (replicate n 0x23 @ ws) = n" using assms(3,4) by (rule leadingHashes_blank)
  obtain c cs where ws: "ws = c # cs" using assms(3) by (cases ws) auto
  have d: "dropWhile isWhiteSpace ws = []" using assms(4) by simp
  have "spec_heading (replicate n 0x23 @ ws) = Some (n, [])"
    unfolding spec_heading_def n Let_def using assms(1,2,4) by (simp add: ws)
  then show ?thesis by (simp add: headerMatch_spec untilLineTerminator_def)
qed

text \<open>
  Claim C2, as the code has it. A line with seven or more leading \<open>#\<close>, or with a run of
  \<open>#\<close> that no whitespace follows, gives no record. A line of one to six \<open>#\<close> followed by
  nothing but whitespace does give a record: the pattern's last group may be empty, so
  the record's text is the empty string.
\<close>

theorem malformed_heading_lines:
  "(i < length lines \<and>
    (7 \<le> leadingHashes (lines ! i) \<or>
     (1 \<le> leadingHashes (lines ! i) \<and>
      (case drop (leadingHashes (lines ! i)) (lines ! i) of [] \<Rightarrow> True | c # cs \<Rightarrow> \<not> isWhiteSpace c)))
    \<longrightarrow> \<not> (\<exists>level headerText. (level, headerText, i) \<in> set (headingRecords lines))) \<and>
   (i < length lines \<and> 1 \<le> n \<and> n \<le> 6 \<and> ws \<noteq> [] \<and> (\<forall>c \<in> set ws. isWhiteSpace c) \<and>
    lines ! i = replicate n 0x23 @ ws
    \<longrightarrow> (n, [], i) \<in> set (headingRecords lines))"
proof (intro conjI impI)
  assume "i < length lines \<and>
    (7 \<le> leadingHashes (lines ! i) \<or>
     (1 \<le> leadingHashes (lines ! i) \<and>
      (case drop (leadingHashes (lines ! i)) (lines ! i) of [] \<Rightarrow> True | c # cs \<Rightarrow> \<not> isWhiteSpace c)))"
  then have "headerMatch (lines ! i) = None"
    by (auto simp: headerMatch_None_iff split: list.splits)
  then show "\<not> (\<exists>level headerText. (level, headerText, i) \<in> set (headingRecords lines))"
    by (simp add: headingRecords_set)
next
  assume a: "i < length lines \<and> 1 \<le> n \<and> n \<le> 6 \<and> ws \<noteq> [] \<and> (\<forall>c \<in> set ws. isWhiteSpace c) \<and>
    lines ! i = replicate n 0x23 @ ws"
  then have "headerMatch (lines ! i) = Some (replicate n 0x23, [])"
    using headerMatch_blank [of n ws] by simp
  with a show "(n, [], i) \<in> set (headingRecords lines)"
    by (force simp: headingRecords_set)
qed

theorem malformed_heading_lines_witness:
  "\<not> (\<exists>level headerText. (level, headerText, 0) \<in> set (headingRecords malformed_lines)) \<and>
   \<not> (\<exists>level headerText. (level, headerText, 1) \<in> set (headingRecords malformed_lines)) \<and>
   \<not> (\<exists>level headerText. (level, headerText, 2) \<in> set (headingRecords malformed_lines)) \<and>
   (1, [], 3) \<in> set (headingRecords malformed_lines)"
proof -
  have a: "0 < length malformed_lines \<and> 7 \<le> leadingHashes (malformed_lines ! 0)"
    by (simp add: malformed_lines_def leadingHashes_def char_defs)
  have b: "1 < length malformed_lines \<and> 1 \<le> leadingHashes (malformed_lines ! 1) \<and>
      (case drop (leadingHashes (malformed_lines ! 1)) (malformed_lines ! 1) of [] \<Rightarrow> True | c # cs \<Rightarrow> \<not> isWhiteSpace c)"
    by (simp add: malformed_lines_def leadingHashes_def char_defs)
  have c: "2 < length malformed_lines \<and> 1 \<le> leadingHashes (malformed_lines ! 2) \<and>
      (case drop (leadingHashes (malformed_lines ! 2)) (malformed_lines ! 2) of [] \<Rightarrow> True | c # cs \<Rightarrow> \<not> isWhiteSpace c)"
    by (simp add: malformed_lines_def leadingHashes_def char_defs)
  have d: "3 < length malformed_lines \<and> (1::nat) \<le> 1 \<and> (1::nat) \<le> 6 \<and> js '' '' \<noteq> [] \<and>
      (\<forall>c \<in> set (js '' ''). isWhiteSpace c) \<and> malformed_lines ! 3 = replicate 1 0x23 @ js '' ''"
    by (simp add: malformed_lines_def char_defs)
  show ?thesis
    using malformed_heading_lines [where lines = malformed_lines and i = 0 and n = 1 and ws = "js '' ''"] a
          malformed_heading_lines [where lines = malformed_lines and i = 1 and n = 1 and ws = "js '' ''"] b
          malformed_heading_lines [where lines = malformed_lines and i = 2 and n = 1 and ws = "js '' ''"] c
          malformed_heading_lines [where lines = malformed_lines and i = 3 and n = 1 and ws = "js '' ''"] d
    by blast
qed

theorem blank_heading_counterexample:
  "headingRecords (split_newline (js ''# '')) = [(1, [], 0)] \<and>
   forEachLine \<lparr>enableHeaderMenu = True, showH1 = True, showH2 = True, showH3 = True,
                 previousShowH1 = None, previousShowH2 = None, previousShowH3 = None\<rparr>
               (split_newline (js ''# '')) []
     = [\<lparr>innerText = [], dataset_line = 0, paddingLeft = 0\<rparr>]"
  by (simp add: headingRecords_def forEachLine_def appendHeader_def tierHidden_def
        createHeaderItem_def match_defs)

lemma headingRecords_level:
  "(l, t, i) \<in> set (headingRecords lines) \<Longrightarrow> 1 \<le> l \<and> l \<le> 6"
  by (auto simp: headingRecords_set headerMatch_spec spec_heading_def Let_def
           split: list.splits if_splits)

lemma headingRecords_index:
  "(l, t, i) \<in> set (headingRecords lines) \<Longrightarrow> (l', t', i) \<in> set (headingRecords lines) \<Longrightarrow>
     l' = l \<and> t' = t"
  by (auto simp: headingRecords_set)

lemma concat_map_cong: "(\<And>x. x \<in> set xs \<Longrightarrow> f x = g x) \<Longrightarrow> concat (map f xs) = concat (map g xs)"
  by (induction xs) auto

lemma rendered_from_record:
  assumes "item \<in> set (forEachLine s lines [])"
  shows "\<exists>l t. (l, t, dataset_line item) \<in> set (headingRecords lines) \<and> \<not> tierHidden s l \<and>
               item = createHeaderItem l t (dataset_line item)"
  using assms by (auto simp: forEachLine_records createHeaderItem_def split: if_splits)

text \<open>
  Claim C3. With \<open>showH1\<close> off and \<open>showH2\<close>, \<open>showH3\<close> on, the rendered list is exactly
  the items of the level 2 and level 3 headings, in document order, whatever the other
  settings are; and for any settings a heading of level 4 or more has no item in the
  rendered list. The witness is the case of the four levels 1, 2, 3, 4.
\<close>

theorem tier_filtering:
  "(\<not> showH1 s \<and> showH2 s \<and> showH3 s \<longrightarrow>
      forEachLine s lines [] =
        [createHeaderItem l t i. (l, t, i) \<leftarrow> headingRecords lines, l = 2 \<or> l = 3]) \<and>
   ((l, t, i) \<in> set (headingRecords lines) \<and> 4 \<le> l \<longrightarrow>
      \<not> (\<exists>item \<in> set (forEachLine s lines []). dataset_line item = i))"
proof (intro conjI impI)
  assume f: "\<not> showH1 s \<and> showH2 s \<and> showH3 s"
  have "\<And>x. x \<in> set (headingRecords lines) \<Longrightarrow>
          (case x of (l, t, i) \<Rightarrow> if \<not> tierHidden s l then [createHeaderItem l t i] else []) =
          (case x of (l, t, i) \<Rightarrow> if l = 2 \<or> l = 3 then [createHeaderItem l t i] else [])"
  proof -
    fix x assume x: "x \<in> set (headingRecords lines)"
    obtain l t i where xe: "x = (l, t, i)" by (cases x) auto
    have "1 \<le> l" using x xe headingRecords_level by blast
    then have "\<not> tierHidden s l \<longleftrightarrow> l = 2 \<or> l = 3"
      using f by (auto simp: tierHidden_def)
    then show "(case x of (l, t, i) \<Rightarrow> if \<not> tierHidden s l then [createHeaderItem l t i] else []) =
          (case x of (l, t, i) \<Rightarrow> if l = 2 \<or> l = 3 then [createHeaderItem l t i] else [])"
      by (simp add: xe)
  qed
  then have "concat (map (\<lambda>x. case x of (l, t, i) \<Rightarrow> if \<not> tierHidden s l then [createHeaderItem l t i] else []) (headingRecords lines)) =
        concat (map (\<lambda>x. case x of (l, t, i) \<Rightarrow> if l = 2 \<or> l = 3 then [createHeaderItem l t i] else []) (headingRecords lines))"
    by (rule concat_map_cong)
  then show "forEachLine s lines [] =
        [createHeaderItem l t i. (l, t, i) \<leftarrow> headingRecords lines, l = 2 \<or> l = 3]"
    by (simp add: forEachLine_records split_def)
next
  assume a: "(l, t, i) \<in> set (headingRecords lines) \<and> 4 \<le> l"
  show "\<not> (\<exists>item \<in> set (forEachLine s lines []). dataset_line item = i)"
  proof
    assume "\<exists>item \<in> set (forEachLine s lines []). dataset_line item = i"
    then obtain item where it: "item \<in> set (forEachLine s lines [])" and d: "dataset_line item = i"
      by blast
    from rendered_from_record [OF it] d obtain l' t'
      where r: "(l', t', i) \<in> set (headingRecords lines)" and h: "\<not> tierHidden s l'" by blast
    have "l' = l" using a r headingRecords_index by blast
    then show False using a h by (simp add: tierHidden_def)
  qed
qed

lemma four_levels_records:
  "headingRecords four_levels = [(1, js ''A'', 0), (2, js ''B'', 1), (3, js ''C'', 2), (4, js ''D'', 3)]"
  by (simp add: four_levels_def headingRecords_def match_defs upt_rec)

theorem tier_filtering_witness:
  "forEachLine hide_h1 four_levels [] =
     [\<lparr>innerText = js ''B'', dataset_line = 1, paddingLeft = 12\<rparr>,
      \<lparr>innerText = js ''C'', dataset_line = 2, paddingLeft = 24\<rparr>] \<and>
   \<not> (\<exists>item \<in> set (forEachLine hide_h1 four_levels []). dataset_line item = 3)"
proof -
  have f: "\<not> showH1 hide_h1 \<and> showH2 hide_h1 \<and> showH3 hide_h1" by (simp add: hide_h1_def)
  have m: "(4, js ''D'', 3) \<in> set (headingRecords four_levels) \<and> (4::nat) \<le> 4"
    by (simp add: four_levels_records)
  have "forEachLine hide_h1 four_levels [] =
        [createHeaderItem l t i. (l, t, i) \<leftarrow> headingRecords four_levels, l = 2 \<or> l = 3]"
    using tier_filtering [where s = hide_h1 and lines = four_levels and l = 4 and t = "js ''D''" and i = 3] f by blast
  moreover have "\<not> (\<exists>item \<in> set (forEachLine hide_h1 four_levels []). dataset_line item = 3)"
    using tier_filtering [where s = hide_h1 and lines = four_levels and l = 4 and t = "js ''D''" and i = 3] m by blast
  ultimately show ?thesis
    by (simp add: four_levels_records createHeaderItem_def)
qed

section \<open>Properties of the settings\<close>

lemma load_saved: "loadSettings (Some (saveSettings s)) = s"
  by (cases s) (simp add: loadSettings_def saveSettings_def assign_def defaultSettings_def
        split: option.splits)

lemma coupled_default: "coupled defaultSettings"
  by (simp add: coupled_def defaultSettings_def)

lemma coupled_menu_toggle: "coupled (onChangeEnableHeaderMenu v s)"
  by (simp add: coupled_def onChangeEnableHeaderMenu_def Let_def)

lemma coupled_tier_toggle: "coupled s \<Longrightarrow> coupled (onChangeShow level v s)"
  by (cases level; cases v) (auto simp: coupled_def onChangeShow_def)

lemma reachable_coupled: "reachable s \<Longrightarrow> coupled s"
proof (induction rule: reachable.induct)
  case first_start
  show ?case by (simp add: loadSettings_def coupled_default)
next
  case (menu_toggle s v)
  show ?case by (rule coupled_menu_toggle)
next
  case (tier_toggle s level v)
  then show ?case by (simp add: coupled_tier_toggle)
next
  case (restart s)
  then show ?case by (simp add: load_saved)
qed

lemma reachable_h2_only: "reachable h2_only"
proof -
  have "reachable (onChangeShow H3 False (onChangeShow H1 False (loadSettings None)))"
    by (intro reachable.tier_toggle reachable.first_start)
       (simp_all add: onChangeShow_def loadSettings_def defaultSettings_def)
  moreover have "onChangeShow H3 False (onChangeShow H1 False (loadSettings None)) = h2_only"
    by (simp add: onChangeShow_def loadSettings_def defaultSettings_def h2_only_def)
  ultimately show ?thesis by simp
qed

text \<open>
  Claim C4, as the code has it. Toggling the menu flag leaves the settings coupled
  (menu off implies all three tier flags off), whatever they were; toggling a tier flag
  keeps them coupled, and setting a tier flag to true sets \<open>enableHeaderMenu\<close> to true.
  \<open>loadSettings\<close> only merges the stored object over the defaults: the result is coupled
  when nothing is stored, and when what is stored was saved from coupled settings. So
  the settings are coupled in every state the plugin reaches from a first start by its
  own toggles, saving and loading.
\<close>

theorem coupling_invariant:
  "coupled (onChangeEnableHeaderMenu v s) \<and>
   (coupled s \<longrightarrow> coupled (onChangeShow level v s)) \<and>
   enableHeaderMenu (onChangeShow level True s) \<and>
   coupled (loadSettings None) \<and>
   (coupled s \<longrightarrow> coupled (loadSettings (Some (saveSettings s)))) \<and>
   (reachable s \<longrightarrow> coupled s)"
proof -
  have a: "coupled (onChangeEnableHeaderMenu v s)"
    by (rule coupled_menu_toggle)
  have b: "coupled s \<longrightarrow> coupled (onChangeShow level v s)"
    by (simp add: coupled_tier_toggle)
  have c: "enableHeaderMenu (onChangeShow level True s)"
    by (simp add: onChangeShow_def)
  have d: "coupled (loadSettings None)"
    by (simp add: loadSettings_def coupled_default)
  have e: "coupled s \<longrightarrow> coupled (loadSettings (Some (saveSettings s)))"
    by (simp add: load_saved)
  have f: "reachable s \<longrightarrow> coupled s"
    by (simp add: reachable_coupled)
  from a b c d e f show ?thesis by blast
qed

theorem coupling_invariant_witness:
  "coupled h2_only \<and>
   coupled (onChangeEnableHeaderMenu False h2_only) \<and>
   coupled (onChangeShow H3 True h2_only) \<and>
   coupled (onChangeShow H2 False h2_only) \<and>
   coupled (loadSettings (Some (saveSettings h2_only)))"
proof -
  have c: "coupled h2_only"
    using coupling_invariant [where s = h2_only and v = False and level = H2] reachable_h2_only
    by blast
  show ?thesis
    using coupling_invariant [where s = h2_only and v = False and level = H2]
          coupling_invariant [where s = h2_only and v = True and level = H3] c
    by blast
qed

theorem load_uncoupled_counterexample:
  "\<not> coupled (loadSettings (Some stored_menu_off))"
  by (simp add: coupled_def loadSettings_def assign_def stored_menu_off_def defaultSettings_def)

text \<open>
  Claim C5. Switching the menu off and on again, with nothing in between, gives back
  the three tier flags as they were before; and switching the menu on when no previous
  value is stored sets all three to true.
\<close>

theorem disable_enable_restores:
  "showH1 (onChangeEnableHeaderMenu True (onChangeEnableHeaderMenu False s)) = showH1 s \<and>
   showH2 (onChangeEnableHeaderMenu True (onChangeEnableHeaderMenu False s)) = showH2 s \<and>
   showH3 (onChangeEnableHeaderMenu True (onChangeEnableHeaderMenu False s)) = showH3 s \<and>
   (previousShowH1 s = None \<and> previousShowH2 s = None \<and> previousShowH3 s = None \<longrightarrow>
      showH1 (onChangeEnableHeaderMenu True s) \<and>
      showH2 (onChangeEnableHeaderMenu True s) \<and>
      showH3 (onChangeEnableHeaderMenu True s))"
  by (simp add: onChangeEnableHeaderMenu_def Let_def)

theorem disable_enable_restores_witness:
  "onChangeEnableHeaderMenu True (onChangeEnableHeaderMenu False h2_only) =
     h2_only\<lparr>previousShowH1 := Some False, previousShowH2 := Some True, previousShowH3 := Some False\<rparr> \<and>
   showH1 (onChangeEnableHeaderMenu True (loadSettings (Some stored_menu_off))) \<and>
   showH2 (onChangeEnableHeaderMenu True (loadSettings (Some stored_menu_off))) \<and>
   showH3 (onChangeEnableHeaderMenu True (loadSettings (Some stored_menu_off)))"
proof -
  have n: "previousShowH1 (loadSettings (Some stored_menu_off)) = None \<and>
           previousShowH2 (loadSettings (Some stored_menu_off)) = None \<and>
           previousShowH3 (loadSettings (Some stored_menu_off)) = None"
    by (simp add: loadSettings_def assign_def stored_menu_off_def defaultSettings_def)
  have e: "onChangeEnableHeaderMenu True (onChangeEnableHeaderMenu False h2_only) =
     h2_only\<lparr>previousShowH1 := Some False, previousShowH2 := Some True, previousShowH3 := Some False\<rparr>"
    by (simp add: onChangeEnableHeaderMenu_def Let_def h2_only_def)
  show ?thesis
    using disable_enable_restores [of "loadSettings (Some stored_menu_off)"] n e by blast
qed

section \<open>Properties of the overlay\<close>

declare bit_length.simps [simp del]

lemma bit_length_0: "bit_length 0 = 0"
  by (simp add: bit_length.simps)

lemma bit_length_numeral: "bit_length (numeral k) = Suc (bit_length (numeral k div 2))"
  by (subst bit_length.simps) simp

lemma bit_length_1: "bit_length (Suc 0) = 1"
  by (simp add: bit_length.simps [of "Suc 0"] bit_length_0)

lemmas bit_length_eval = bit_length_0 bit_length_1 bit_length_numeral

lemma times_tenth_1000: "times_tenth 1000 = 100"
  by (simp add: times_tenth_def round53_def bit_length_eval Let_def)

lemma times_tenth_1203: "times_tenth 1203 = 1203 / 10 + 1 / 87960930222080"
  by (simp add: times_tenth_def round53_def bit_length_eval Let_def)

lemmas workspace_defs =
  activeView_def cmEditor_def isSourceMode_def isMarkdown_def querySelector_def
  viewHasMode_def editorSurface_def

lemma removeFloatingElements_hidden: "overlay_hidden (removeFloatingElements p)"
  by (simp add: overlay_hidden_def removeFloatingElements_def removeNode_def)

lemma removeFloatingElements_frame:
  "plugin_settings (removeFloatingElements p) = plugin_settings p"
  "layoutChange (removeFloatingElements p) = layoutChange p"
  "headerList (removeFloatingElements p) = headerList p"
  by (simp_all add: removeFloatingElements_def removeNode_def)

lemma refreshHeaderList_no_document:
  "getActiveFile ws = None \<or> cmEditor ws = None \<Longrightarrow> refreshHeaderList ws p = p\<lparr>headerList := []\<rparr>"
  by (auto simp: refreshHeaderList_def Let_def split: option.splits)

lemma refreshHeaderList_frame:
  "plugin_settings (refreshHeaderList ws p) = plugin_settings p"
  "childNodes (refreshHeaderList ws p) = childNodes p"
  "layoutChange (refreshHeaderList ws p) = layoutChange p"
  by (simp_all add: refreshHeaderList_def Let_def split: option.splits)

lemma updateMenu_no_mode:
  "\<not> viewHasMode ws \<Longrightarrow> updateMenu ws p = Inl TypeError"
  by (auto simp: updateMenu_def workspace_defs Let_def split: option.splits)

lemma updateMenu_no_surface:
  "viewHasMode ws \<Longrightarrow> editorSurface ws = None \<Longrightarrow> updateMenu ws p = Inr (removeFloatingElements p)"
  by (auto simp: updateMenu_def workspace_defs Let_def split: option.splits if_splits)

lemma updateMenu_minimal:
  assumes "editorSurface ws = Some c" and "\<not> enableHeaderMenu (plugin_settings p)"
  shows "updateMenu ws p =
           Inr (positionFloatingElements ws c (appendChild c TopButton (removeFloatingElements p)))"
  using assms
  by (auto simp: updateMenu_def workspace_defs Let_def removeFloatingElements_frame
        positionFloatingElements_def appendChild_def removeNode_def
        split: option.splits if_splits)

lemma updateMenu_with_menu:
  assumes "editorSurface ws = Some c" and "enableHeaderMenu (plugin_settings p)"
  shows "updateMenu ws p =
           Inr ((refreshHeaderList ws
                  ((appendChild c MenuContainer
                     (positionFloatingElements ws c
                       (appendChild c TopButton (removeFloatingElements p))))
                   \<lparr>menuContainer_display := ''block''\<rparr>))
                \<lparr>layoutChange := layoutChange p @ [PositionFloatingElements c]\<rparr>)"
  using assms
  by (auto simp: updateMenu_def workspace_defs Let_def removeFloatingElements_frame
        refreshHeaderList_frame positionFloatingElements_def appendChild_def removeNode_def
        split: option.splits if_splits)

lemma updateMenu_total:
  "viewHasMode ws \<Longrightarrow> \<exists>p'. updateMenu ws p = Inr p'"
  by (auto simp: updateMenu_def workspace_defs Let_def split: option.splits)

lemma attached_children:
  "childNodes (appendChild c MenuContainer
                (positionFloatingElements ws c
                  (appendChild c TopButton (removeFloatingElements p)))) =
   (\<lambda>c'. [n \<leftarrow> childNodes p c'. n \<noteq> MenuContainer \<and> n \<noteq> TopButton] @
          (if c' = c then [TopButton, MenuContainer] else []))"
  by (rule ext)
     (auto simp: appendChild_def removeNode_def removeFloatingElements_def
        positionFloatingElements_def Let_def removeAll_filter_not_eq
        intro!: filter_cong)

lemma no_file_facts:
  "viewHasMode no_file" "editorSurface no_file = Some 7"
  "getActiveFile no_file = None" "cmEditor no_file = None" "clientWidth no_file 7 = 1000"
  by (simp_all add: no_file_def markdown_view_def workspace_defs)

lemma fresh_facts:
  "enableHeaderMenu (plugin_settings fresh)" "childNodes fresh = (\<lambda>c. [])"
  "layoutChange fresh = [UpdateMenu]" "headerList fresh = []"
  by (simp_all add: fresh_def onload_def loadSettings_def defaultSettings_def)

lemma updateMenu_no_file: "updateMenu no_file fresh = Inr no_file_attached"
  unfolding updateMenu_with_menu [OF no_file_facts(2) fresh_facts(1)]
            refreshHeaderList_no_document [OF disjI1, OF no_file_facts(3)]
  by (simp add: no_file_attached_def appendChild_def removeNode_def removeFloatingElements_def
        positionFloatingElements_def Let_def no_file_facts times_tenth_1000 fresh_facts fun_eq_iff)

text \<open>
  Claim C9, as the code has it. When the active view (if there is one) has the \<open>getMode\<close>
  method, \<open>updateMenu\<close> returns without an error. When there is no active leaf or view, or
  the view is not a markdown view in source mode, or it has no container node,
  \<open>updateMenu\<close> only detaches and the overlay is hidden. When the active file or the
  editor handle is missing, \<open>refreshHeaderList\<close> returns with the heading list emptied;
  \<open>updateMenu\<close> on an editable surface with the menu enabled then leaves both floating
  elements attached to the container, with an empty heading list.
\<close>

theorem missing_preconditions:
  "(viewHasMode ws \<longrightarrow> (\<exists>p'. updateMenu ws p = Inr p')) \<and>
   (viewHasMode ws \<and> editorSurface ws = None \<longrightarrow>
      updateMenu ws p = Inr (removeFloatingElements p) \<and>
      overlay_hidden (removeFloatingElements p)) \<and>
   (getActiveFile ws = None \<or> cmEditor ws = None \<longrightarrow>
      refreshHeaderList ws p = p\<lparr>headerList := []\<rparr>) \<and>
   (editorSurface ws = Some c \<and> enableHeaderMenu (plugin_settings p) \<and>
    (getActiveFile ws = None \<or> cmEditor ws = None) \<longrightarrow>
      (\<exists>p'. updateMenu ws p = Inr p' \<and> headerList p' = [] \<and>
            TopButton \<in> set (childNodes p' c) \<and> MenuContainer \<in> set (childNodes p' c)))"
proof -
  have a: "viewHasMode ws \<longrightarrow> (\<exists>p'. updateMenu ws p = Inr p')"
    by (simp add: updateMenu_total)
  have b: "viewHasMode ws \<and> editorSurface ws = None \<longrightarrow>
      updateMenu ws p = Inr (removeFloatingElements p) \<and>
      overlay_hidden (removeFloatingElements p)"
    by (simp add: updateMenu_no_surface removeFloatingElements_hidden)
  have c: "getActiveFile ws = None \<or> cmEditor ws = None \<longrightarrow>
      refreshHeaderList ws p = p\<lparr>headerList := []\<rparr>"
    using refreshHeaderList_no_document by blast
  have d: "editorSurface ws = Some c \<and> enableHeaderMenu (plugin_settings p) \<and>
    (getActiveFile ws = None \<or> cmEditor ws = None) \<longrightarrow>
      (\<exists>p'. updateMenu ws p = Inr p' \<and> headerList p' = [] \<and>
            TopButton \<in> set (childNodes p' c) \<and> MenuContainer \<in> set (childNodes p' c))"
  proof
    assume h: "editorSurface ws = Some c \<and> enableHeaderMenu (plugin_settings p) \<and>
      (getActiveFile ws = None \<or> cmEditor ws = None)"
    then have u: "updateMenu ws p =
           Inr ((refreshHeaderList ws
                  ((appendChild c MenuContainer
                     (positionFloatingElements ws c
                       (appendChild c TopButton (removeFloatingElements p))))
                   \<lparr>menuContainer_display := ''block''\<rparr>))
                \<lparr>layoutChange := layoutChange p @ [PositionFloatingElements c]\<rparr>)"
      using updateMenu_with_menu by blast
    from h have r: "\<And>q. refreshHeaderList ws q = q\<lparr>headerList := []\<rparr>"
      using refreshHeaderList_no_document by blast
    show "\<exists>p'. updateMenu ws p = Inr p' \<and> headerList p' = [] \<and>
            TopButton \<in> set (childNodes p' c) \<and> MenuContainer \<in> set (childNodes p' c)"
      unfolding u r by (simp add: attached_children)
  qed
  from a b c d show ?thesis by blast
qed

theorem missing_preconditions_witness:
  "updateMenu no_leaf populated = Inr (removeFloatingElements populated) \<and>
   overlay_hidden (removeFloatingElements populated) \<and>
   refreshHeaderList no_file populated = populated\<lparr>headerList := []\<rparr> \<and>
   (\<exists>p'. updateMenu no_file fresh = Inr p' \<and> headerList p' = [] \<and>
         TopButton \<in> set (childNodes p' 7) \<and> MenuContainer \<in> set (childNodes p' 7))"
proof -
  have l: "viewHasMode no_leaf \<and> editorSurface no_leaf = None"
    by (simp add: no_leaf_def workspace_defs)
  have n: "getActiveFile no_file = None \<or> cmEditor no_file = None"
    by (simp add: no_file_facts)
  have f: "editorSurface no_file = Some 7 \<and> enableHeaderMenu (plugin_settings fresh) \<and>
           (getActiveFile no_file = None \<or> cmEditor no_file = None)"
    by (simp add: no_file_facts fresh_facts)
  show ?thesis
    using missing_preconditions [where ws = no_leaf and p = populated and c = 7] l
          missing_preconditions [where ws = no_file and p = populated and c = 7] n
          missing_preconditions [where ws = no_file and p = fresh and c = 7] f
    by blast
qed

theorem not_hidden_counterexample:
  "getActiveFile no_file = None \<and> cmEditor no_file = None \<and>
   updateMenu no_file fresh = Inr no_file_attached \<and>
   \<not> overlay_hidden no_file_attached"
proof -
  have "TopButton \<in> set (childNodes no_file_attached 7)"
    by (simp add: no_file_attached_def)
  then have "\<not> overlay_hidden no_file_attached"
    unfolding overlay_hidden_def by blast
  then show ?thesis
    by (simp add: no_file_facts updateMenu_no_file)
qed

lemma getMode_missing_raises: "updateMenu graph_view fresh = Inl TypeError"
  by (rule updateMenu_no_mode) (simp add: graph_view_def workspace_defs)

text \<open>
  Claim C10. \<open>refreshHeaderList\<close> empties the heading list before it looks for the active
  file and the editor: when either is missing the list ends empty, whatever it held.
\<close>

theorem failed_refresh_clears:
  "getActiveFile ws = None \<or> cmEditor ws = None \<longrightarrow> headerList (refreshHeaderList ws p) = []"
  by (auto simp: refreshHeaderList_def Let_def split: option.splits)

theorem failed_refresh_clears_witness:
  "headerList populated = [createHeaderItem 1 (js ''Intro'') 0] \<and>
   headerList (refreshHeaderList no_file populated) = []"
proof -
  have "getActiveFile no_file = None \<or> cmEditor no_file = None"
    by (simp add: no_file_facts)
  then have "headerList (refreshHeaderList no_file populated) = []"
    using failed_refresh_clears [of no_file populated] by blast
  then show ?thesis by (simp add: populated_def)
qed

section \<open>Properties of the width computation\<close>

lemma bit_length_bounds: "0 < n \<Longrightarrow> 2 ^ (bit_length n - 1) \<le> n \<and> n < 2 ^ bit_length n"
proof (induction n rule: bit_length.induct)
  case (1 n)
  show ?case
  proof (cases "n div 2 = 0")
    case True
    with "1.prems" have "n = 1" by (simp add: div_eq_0_iff)
    then show ?thesis by (simp add: bit_length_eval)
  next
    case False
    then have pos: "0 < n div 2" by simp
    from "1.prems" have n0: "n \<noteq> 0" by simp
    let ?b = "bit_length (n div 2)"
    have ih: "2 ^ (?b - 1) \<le> n div 2 \<and> n div 2 < 2 ^ ?b"
      using "1.IH" [OF n0 pos] .
    have b: "bit_length n = Suc ?b" using n0 by (subst bit_length.simps) simp
    have bpos: "0 < ?b" using pos by (subst bit_length.simps) simp
    then have p: "(2::nat) ^ ?b = 2 * 2 ^ (?b - 1)" by (cases ?b) simp_all
    have lo: "2 ^ ?b \<le> n" using ih p by linarith
    have hi: "n < 2 * 2 ^ ?b" using ih by linarith
    show ?thesis using lo hi by (simp add: b)
  qed
qed

lemma round53_error: "\<bar>int (round53 n) - int n\<bar> * 2 ^ 53 \<le> int n"
proof (cases "bit_length n \<le> 53")
  case True
  then show ?thesis by (simp add: round53_def)
next
  case False
  define k where "k = bit_length n - 53"
  define q where "q = n div 2 ^ k"
  define r where "r = n mod 2 ^ k"
  define half :: nat where "half = 2 ^ (k - 1)"
  have kpos: "0 < k" using False by (simp add: k_def)
  have npos: "0 < n" using False by (cases "n = 0") (simp_all add: bit_length_eval)
  have two: "(2::nat) ^ k = 2 * half" using kpos by (cases k) (simp_all add: half_def)
  have n: "n = q * 2 ^ k + r" unfolding q_def r_def by (rule div_mult_mod_eq [symmetric])
  have "r < 2 ^ k" unfolding r_def by (rule mod_less_divisor) simp
  then have r: "r < 2 * half" by (simp only: two)
  have "bit_length n - 1 = k + 52" using False by (simp add: k_def)
  then have "2 ^ (k + 52) \<le> n" using bit_length_bounds [OF npos] by simp
  then have big: "half * 2 ^ 53 \<le> n"
    using two by (simp add: power_add)
  have rd: "round53 n = (if r > half \<or> (r = half \<and> odd q) then q + 1 else q) * 2 ^ k"
    using False by (simp add: round53_def Let_def k_def q_def r_def half_def)
  have "\<bar>int (round53 n) - int n\<bar> \<le> int half"
  proof (cases "r > half \<or> (r = half \<and> odd q)")
    case True
    then have "round53 n = q * 2 ^ k + 2 * half" by (simp add: rd two algebra_simps)
    then have "int (round53 n) - int n = int (2 * half) - int r" using n by simp
    then show ?thesis using True r by auto
  next
    case False
    then have "round53 n = q * 2 ^ k" by (simp add: rd)
    then have "int (round53 n) - int n = - int r" using n by simp
    then show ?thesis using False by auto
  qed
  then have "\<bar>int (round53 n) - int n\<bar> * 2 ^ 53 \<le> int half * 2 ^ 53"
    by (rule mult_right_mono) simp
  also have "\<dots> \<le> int n" using big by (metis of_nat_le_iff of_nat_mult of_nat_numeral of_nat_power)
  finally show ?thesis .
qed

lemma times_tenth_close: "\<bar>times_tenth w - of_nat w / 10\<bar> \<le> of_nat w / 2 ^ 55"
proof -
  define d where "d = int (round53 (w * 3602879701896397)) - int (w * 3602879701896397)"
  have "\<bar>d\<bar> * 2 ^ 53 \<le> int (w * 3602879701896397)"
    unfolding d_def by (rule round53_error)
  then have h: "2 * \<bar>d\<bar> \<le> int w" by simp
  have R: "int (round53 (w * 3602879701896397)) = int w * 3602879701896397 + d"
    by (simp add: d_def)
  have "times_tenth w = of_int (int (round53 (w * 3602879701896397))) / 2 ^ 55"
    by (simp add: times_tenth_def)
  then have tt: "times_tenth w = (of_int (int w) * 3602879701896397 + of_int d) / 2 ^ 55"
    by (simp add: R)
  have eq: "times_tenth w - of_nat w / 10 = (of_int (10 * d + 2 * int w)) / (10 * 2 ^ 55)"
    unfolding tt by (simp add: field_simps)
  have "\<bar>10 * d + 2 * int w\<bar> \<le> 10 * int w" using h by linarith
  then have le: "\<bar>(of_int (10 * d + 2 * int w) :: rat)\<bar> \<le> of_int (10 * int w)"
    by (metis of_int_abs of_int_le_iff)
  have "\<bar>times_tenth w - of_nat w / 10\<bar> = \<bar>(of_int (10 * d + 2 * int w) :: rat)\<bar> / (10 * 2 ^ 55)"
    unfolding eq by (simp only: abs_divide) simp
  also have "\<dots> \<le> of_int (10 * int w) / (10 * 2 ^ 55)"
    using le by (rule divide_right_mono) simp
  also have "\<dots> = of_nat w / 2 ^ 55" by simp
  finally show ?thesis .
qed

text \<open>
  Claim C8. For every container width the positioner sets the menu's width to the
  larger of 120 and the product \<open>editorWidth * 0.1\<close>, and gives the button the same width.
  The product is the double nearest to the exact one; it differs from a tenth of the
  width by at most \<open>editorWidth / 2^55\<close>. For a width of 1000 the product is exactly 100
  and the width set is 120.
\<close>

theorem overlay_width:
  "menuContainer_width (positionFloatingElements ws c p) =
     Some (max 120 (times_tenth (clientWidth ws c))) \<and>
   topButton_width (positionFloatingElements ws c p) =
     menuContainer_width (positionFloatingElements ws c p) \<and>
   \<bar>times_tenth (clientWidth ws c) - of_nat (clientWidth ws c) / 10\<bar>
     \<le> of_nat (clientWidth ws c) / 2 ^ 55 \<and>
   menuContainer_width (positionFloatingElements (ws\<lparr>clientWidth := (\<lambda>e. 1000)\<rparr>) c p) = Some 120 \<and>
   topButton_width (positionFloatingElements (ws\<lparr>clientWidth := (\<lambda>e. 1000)\<rparr>) c p) = Some 120"
proof -
  have a: "menuContainer_width (positionFloatingElements ws c p) =
             Some (max 120 (times_tenth (clientWidth ws c)))"
    by (simp add: positionFloatingElements_def Let_def)
  have b: "topButton_width (positionFloatingElements ws c p) =
             menuContainer_width (positionFloatingElements ws c p)"
    by (simp add: positionFloatingElements_def Let_def)
  have d: "\<bar>times_tenth (clientWidth ws c) - of_nat (clientWidth ws c) / 10\<bar>
             \<le> of_nat (clientWidth ws c) / 2 ^ 55"
    by (rule times_tenth_close)
  have e: "menuContainer_width (positionFloatingElements (ws\<lparr>clientWidth := (\<lambda>e. 1000)\<rparr>) c p) = Some 120"
    by (simp add: positionFloatingElements_def Let_def times_tenth_1000)
  have f: "topButton_width (positionFloatingElements (ws\<lparr>clientWidth := (\<lambda>e. 1000)\<rparr>) c p) = Some 120"
    by (simp add: positionFloatingElements_def Let_def times_tenth_1000)
  from a b d e f show ?thesis by blast
qed

lemma updateMenu_settings:
  "updateMenu ws p = Inr p' \<Longrightarrow> plugin_settings p' = plugin_settings p"
  by (auto simp: updateMenu_def Let_def refreshHeaderList_frame removeFloatingElements_frame
        positionFloatingElements_def appendChild_def removeNode_def
        split: sum.splits option.splits if_splits)

lemma overlay_at_idem: "overlay_at c (overlay_at c nodes) = overlay_at c nodes"
  by (rule ext) (simp add: overlay_at_def)

lemma updateMenu_attach:
  assumes "editorSurface ws = Some c" and "enableHeaderMenu (plugin_settings p)"
  shows "\<exists>p'. updateMenu ws p = Inr p' \<and>
              childNodes p' = overlay_at c (childNodes p) \<and>
              layoutChange p' = layoutChange p @ [PositionFloatingElements c]"
  unfolding updateMenu_with_menu [OF assms]
  by (simp add: refreshHeaderList_frame attached_children overlay_at_def)

lemma updateMenuTimes_attach:
  assumes "editorSurface ws = Some c" and "enableHeaderMenu (plugin_settings p)"
  shows "\<exists>p'. updateMenuTimes (Suc n) ws p = Inr p' \<and>
              childNodes p' = overlay_at c (childNodes p) \<and>
              layoutChange p' = layoutChange p @ replicate (Suc n) (PositionFloatingElements c)"
  using assms(2)
proof (induction n arbitrary: p)
  case 0
  from updateMenu_attach [OF assms(1) "0.prems"] show ?case by auto
next
  case (Suc n)
  from updateMenu_attach [OF assms(1) Suc.prems] obtain p1
    where u: "updateMenu ws p = Inr p1"
      and c1: "childNodes p1 = overlay_at c (childNodes p)"
      and l1: "layoutChange p1 = layoutChange p @ [PositionFloatingElements c]"
    by blast
  have "enableHeaderMenu (plugin_settings p1)"
    using updateMenu_settings [OF u] Suc.prems by simp
  from Suc.IH [OF this] obtain p'
    where r: "updateMenuTimes (Suc n) ws p1 = Inr p'"
      and c2: "childNodes p' = overlay_at c (childNodes p1)"
      and l2: "layoutChange p' = layoutChange p1 @ replicate (Suc n) (PositionFloatingElements c)"
    by blast
  have "updateMenuTimes (Suc (Suc n)) ws p = Inr p'"
    using u r by simp
  moreover have "childNodes p' = overlay_at c (childNodes p)"
    by (simp add: c2 c1 overlay_at_idem)
  moreover have "layoutChange p' = layoutChange p @ replicate (Suc (Suc n)) (PositionFloatingElements c)"
    by (simp add: l2 l1 replicate_append_same)
  ultimately show ?case by blast
qed

lemma overlay_nodes_once:
  "count_list (overlay_at c nodes c) MenuContainer = 1"
  "count_list (overlay_at c nodes c) TopButton = 1"
  "c' \<noteq> c \<Longrightarrow> MenuContainer \<notin> set (overlay_at c nodes c') \<and> TopButton \<notin> set (overlay_at c nodes c')"
  by (simp_all add: overlay_at_def count_list_0_iff)

lemma editing_facts:
  "editorSurface editing = Some 7" "viewHasMode editing"
  by (simp_all add: editing_def markdown_view_def workspace_defs)

text \<open>
  Claim C6 fails on the code. \<open>updateMenu\<close> detaches both elements before it attaches
  them again, so however often the event arrives the container holds the button and the
  menu once each. But every run that attaches the menu also registers one more
  \<open>layout-change\<close> listener, and nothing ever removes one: after two events on the same
  surface two positioning listeners stand beside the one \<open>onload\<close> registered for
  \<open>updateMenu\<close>.
\<close>

theorem listeners_accumulate:
  "(case updateMenuTimes 2 editing fresh of
      Inl e \<Rightarrow> None
    | Inr p \<Rightarrow> Some (childNodes p 7, layoutChange p)) =
   Some ([TopButton, MenuContainer],
         [UpdateMenu, PositionFloatingElements 7, PositionFloatingElements 7])"
proof -
  from updateMenuTimes_attach [OF editing_facts(1) fresh_facts(1), of "Suc 0"] obtain p'
    where r: "updateMenuTimes (Suc (Suc 0)) editing fresh = Inr p'"
      and c: "childNodes p' = overlay_at 7 (childNodes fresh)"
      and l: "layoutChange p' =
                layoutChange fresh @ replicate (Suc (Suc 0)) (PositionFloatingElements 7)"
    by blast
  have two: "updateMenuTimes 2 editing fresh = updateMenuTimes (Suc (Suc 0)) editing fresh"
    by (simp only: numeral_2_eq_2)
  show ?thesis
    unfolding two r by (simp add: c l overlay_at_def fresh_facts)
qed

section \<open>Properties of the debounced trigger\<close>

declare step.simps [simp del]

lemma ticks_idle: "scheduled h = [] \<Longrightarrow> (tick ^^ n) h = h\<lparr>clock := clock h + n\<rparr>"
proof (induction n arbitrary: h)
  case 0
  then show ?case by simp
next
  case (Suc n)
  have t: "tick h = h\<lparr>clock := Suc (clock h)\<rparr>"
    using Suc.prems by (simp add: tick_def runDue_def)
  have "(tick ^^ Suc n) h = (tick ^^ n) (tick h)" by (simp add: funpow_swap1)
  also have "\<dots> = (tick h)\<lparr>clock := clock (tick h) + n\<rparr>"
    by (rule Suc.IH) (simp add: t Suc.prems)
  finally show ?case by (simp add: t)
qed

lemma ticks_early:
  "scheduled h = [(i, due, f)] \<Longrightarrow> clock h + n < due \<Longrightarrow> (tick ^^ n) h = h\<lparr>clock := clock h + n\<rparr>"
proof (induction n arbitrary: h)
  case 0
  then show ?case by simp
next
  case (Suc n)
  have t: "tick h = h\<lparr>clock := Suc (clock h)\<rparr>"
    using Suc.prems by (simp add: tick_def runDue_def)
  have "(tick ^^ Suc n) h = (tick ^^ n) (tick h)" by (simp add: funpow_swap1)
  also have "\<dots> = (tick h)\<lparr>clock := clock (tick h) + n\<rparr>"
    using Suc.prems by (intro Suc.IH) (simp_all add: t)
  finally show ?case by (simp add: t)
qed

lemma tick_due:
  "scheduled h = [(i, Suc (clock h), f)] \<Longrightarrow>
     tick h = h\<lparr>clock := Suc (clock h), scheduled := [], world := f (world h),
               ran := ran h @ [Suc (clock h)]\<rparr>"
  by (simp add: tick_def runDue_def)

lemma ticks_late:
  assumes "scheduled h = [(i, due, f)]" and "clock h < due" and "due \<le> clock h + n"
  shows "(tick ^^ n) h =
           h\<lparr>clock := clock h + n, scheduled := [], world := f (world h), ran := ran h @ [due]\<rparr>"
proof -
  obtain a where a: "due = Suc (clock h + a)" using assms(2) less_iff_Suc_add by auto
  then obtain b where n: "n = b + Suc a" using assms(3) by (metis add.commute add_Suc_right add_Suc le_iff_add nat_add_left_cancel_le)
  let ?h1 = "h\<lparr>clock := clock h + a\<rparr>"
  have h1: "(tick ^^ a) h = ?h1"
    using assms(1) by (rule ticks_early) (simp add: a)
  have "scheduled ?h1 = [(i, Suc (clock ?h1), f)]" by (simp add: assms(1) a)
  then have h2: "tick ?h1 = ?h1\<lparr>clock := Suc (clock ?h1), scheduled := [], world := f (world ?h1),
               ran := ran ?h1 @ [Suc (clock ?h1)]\<rparr>"
    by (rule tick_due)
  let ?h2 = "tick ?h1"
  have h3: "(tick ^^ b) ?h2 = ?h2\<lparr>clock := clock ?h2 + b\<rparr>"
    by (rule ticks_idle) (simp add: h2)
  have "(tick ^^ (b + Suc a)) h = (tick ^^ b) ((tick ^^ Suc a) h)"
    by (simp only: funpow_add o_apply)
  then have "(tick ^^ n) h = (tick ^^ b) (tick ((tick ^^ a) h))"
    unfolding n by simp
  then show ?thesis
    by (simp add: h1 h3) (simp add: h2 a n)
qed

lemma debounce_scheduled:
  "debounce func delay (timer, h) =
     (Some (nextTimer h),
      h\<lparr>nextTimer := Suc (nextTimer h),
        scheduled := [e \<leftarrow> scheduled h. Some (fst e) \<noteq> timer] @
                     [(nextTimer h, clock h + delay, func)]\<rparr>)"
  by (cases timer) (simp_all add: debounce_def setTimeout_def clearTimeout_def)

lemma invoke_idle:
  "scheduled (snd s) = [] \<Longrightarrow> waiting func delay (step func delay Invoke s)"
  by (cases s) (simp add: step.simps debounce_scheduled waiting_def)

lemma invoke_waiting:
  "waiting func delay s \<Longrightarrow> waiting func delay (step func delay Invoke s)"
  by (cases s) (auto simp: step.simps debounce_scheduled waiting_def split: option.splits)

lemma invoke_frame:
  "clock (snd (step func delay Invoke s)) = clock (snd s)"
  "world (snd (step func delay Invoke s)) = world (snd s)"
  "ran (snd (step func delay Invoke s)) = ran (snd s)"
  by (cases s; simp add: step.simps debounce_scheduled)+

lemma wait_early:
  assumes "waiting func delay s" and "n < delay"
  shows "step func delay (Wait n) s = (fst s, (snd s)\<lparr>clock := clock (snd s) + n\<rparr>)"
proof -
  from assms(1) obtain t where "scheduled (snd s) = [(t, clock (snd s) + delay, func)]"
    by (auto simp: waiting_def split: option.splits)
  then have "(tick ^^ n) (snd s) = (snd s)\<lparr>clock := clock (snd s) + n\<rparr>"
    by (rule ticks_early) (simp add: assms(2))
  then show ?thesis by (simp add: step.simps)
qed

lemma wait_late:
  assumes "waiting func delay s" and "0 < delay" and "delay \<le> n"
  shows "step func delay (Wait n) s =
           (fst s, (snd s)\<lparr>clock := clock (snd s) + n, scheduled := [],
                            world := func (world (snd s)),
                            ran := ran (snd s) @ [clock (snd s) + delay]\<rparr>)"
proof -
  from assms(1) obtain t where "scheduled (snd s) = [(t, clock (snd s) + delay, func)]"
    by (auto simp: waiting_def split: option.splits)
  then have "(tick ^^ n) (snd s) =
           (snd s)\<lparr>clock := clock (snd s) + n, scheduled := [], world := func (world (snd s)),
                    ran := ran (snd s) @ [clock (snd s) + delay]\<rparr>"
    by (rule ticks_late) (simp_all add: assms(2,3))
  then show ?thesis by (simp add: step.simps)
qed

lemma invoke_pending:
  "fst s = Some t \<Longrightarrow> scheduled (snd s) = [(t, due, g)] \<Longrightarrow>
     waiting func delay (step func delay Invoke s)"
  by (cases s) (simp add: step.simps debounce_scheduled waiting_def)

lemma burst:
  assumes "\<forall>g \<in> set gaps. g < delay" and "waiting func delay s"
  shows "waiting func delay (run func delay (concat (map (\<lambda>g. [Wait g, Invoke]) gaps)) s) \<and>
         clock (snd (run func delay (concat (map (\<lambda>g. [Wait g, Invoke]) gaps)) s)) =
           clock (snd s) + sum_list gaps \<and>
         world (snd (run func delay (concat (map (\<lambda>g. [Wait g, Invoke]) gaps)) s)) = world (snd s) \<and>
         ran (snd (run func delay (concat (map (\<lambda>g. [Wait g, Invoke]) gaps)) s)) = ran (snd s)"
  using assms
proof (induction gaps arbitrary: s)
  case Nil
  then show ?case by (simp add: run_def)
next
  case (Cons g gaps)
  let ?s1 = "step func delay (Wait g) s"
  let ?s2 = "step func delay Invoke ?s1"
  have g: "g < delay" using Cons.prems(1) by simp
  from Cons.prems(2) obtain t
    where t: "fst s = Some t" and sch: "scheduled (snd s) = [(t, clock (snd s) + delay, func)]"
    by (auto simp: waiting_def split: option.splits)
  have w: "?s1 = (fst s, (snd s)\<lparr>clock := clock (snd s) + g\<rparr>)"
    using Cons.prems(2) g by (rule wait_early)
  have w2: "waiting func delay ?s2"
    unfolding w
    by (rule invoke_pending [where t = t and due = "clock (snd s) + delay" and g = func])
       (simp_all add: t sch)
  have f: "clock (snd ?s2) = clock (snd s) + g" "world (snd ?s2) = world (snd s)"
          "ran (snd ?s2) = ran (snd s)"
    unfolding w by (simp_all add: invoke_frame)
  have r: "run func delay (concat (map (\<lambda>g. [Wait g, Invoke]) (g # gaps))) s =
           run func delay (concat (map (\<lambda>g. [Wait g, Invoke]) gaps)) ?s2"
    by (simp add: run_def)
  have "\<forall>g \<in> set gaps. g < delay" using Cons.prems(1) by simp
  from Cons.IH [OF this w2] show ?case
    unfolding r by (simp add: f)
qed

lemma run_append: "run func delay (es @ es') s = run func delay es' (run func delay es s)"
  by (simp add: run_def)

text \<open>
  Claim C7. Every call of the debounced function drops the callback its \<open>timer\<close> handle
  stands for and schedules \<open>func\<close> for 150 units after the call. Five calls whose gaps add
  up to less than 150, starting with nothing scheduled, run \<open>func\<close> exactly once, 150 units
  after the fifth call: before that instant nothing has run, from it on \<open>func\<close> has run
  once.
\<close>

theorem debounced_trigger:
  "fst (debounce func 150 (timer, h)) = Some (nextTimer h) \<and>
   scheduled (snd (debounce func 150 (timer, h))) =
     [e \<leftarrow> scheduled h. Some (fst e) \<noteq> timer] @ [(nextTimer h, clock h + 150, func)] \<and>
   (g1 + g2 + g3 + g4 < 150 \<and> k < 150 \<longrightarrow>
      world (snd (run func 150
        [Invoke, Wait g1, Invoke, Wait g2, Invoke, Wait g3, Invoke, Wait g4, Invoke, Wait k]
        (idle t0 w))) = w \<and>
      ran (snd (run func 150
        [Invoke, Wait g1, Invoke, Wait g2, Invoke, Wait g3, Invoke, Wait g4, Invoke, Wait k]
        (idle t0 w))) = []) \<and>
   (g1 + g2 + g3 + g4 < 150 \<and> 150 \<le> k \<longrightarrow>
      world (snd (run func 150
        [Invoke, Wait g1, Invoke, Wait g2, Invoke, Wait g3, Invoke, Wait g4, Invoke, Wait k]
        (idle t0 w))) = func w \<and>
      ran (snd (run func 150
        [Invoke, Wait g1, Invoke, Wait g2, Invoke, Wait g3, Invoke, Wait g4, Invoke, Wait k]
        (idle t0 w))) = [t0 + g1 + g2 + g3 + g4 + 150])"
proof -
  let ?calls = "[Wait g1, Invoke, Wait g2, Invoke, Wait g3, Invoke, Wait g4, Invoke]"
  let ?start = "step func 150 Invoke (idle t0 w)"
  let ?burst = "run func 150 ?calls ?start"
  have split: "\<And>k. run func 150
        [Invoke, Wait g1, Invoke, Wait g2, Invoke, Wait g3, Invoke, Wait g4, Invoke, Wait k]
        (idle t0 w) = step func 150 (Wait k) ?burst"
    by (simp add: run_def)
  have w0: "waiting func 150 ?start"
    by (rule invoke_idle) (simp add: idle_def)
  have f0: "clock (snd ?start) = t0" "world (snd ?start) = w" "ran (snd ?start) = []"
    by (simp_all add: invoke_frame) (simp_all add: idle_def)
  have a: "fst (debounce func 150 (timer, h)) = Some (nextTimer h) \<and>
     scheduled (snd (debounce func 150 (timer, h))) =
       [e \<leftarrow> scheduled h. Some (fst e) \<noteq> timer] @ [(nextTimer h, clock h + 150, func)]"
    by (simp add: debounce_scheduled)
  {
    assume gaps: "g1 + g2 + g3 + g4 < 150"
    then have "\<forall>g \<in> set [g1, g2, g3, g4]. g < 150" by simp
    from burst [OF this w0]
    have b: "waiting func 150 ?burst \<and> clock (snd ?burst) = t0 + g1 + g2 + g3 + g4 \<and>
             world (snd ?burst) = w \<and> ran (snd ?burst) = []"
      by (simp add: f0)
    have ws: "waiting func 150 ?burst" by (rule b [THEN conjunct1])
    have c: "clock (snd ?burst) = t0 + g1 + g2 + g3 + g4" using b by blast
    have wd: "world (snd ?burst) = w" using b by blast
    have rn: "ran (snd ?burst) = []" using b by blast
    have early: "k < 150 \<Longrightarrow> world (snd (step func 150 (Wait k) ?burst)) = w \<and>
                              ran (snd (step func 150 (Wait k) ?burst)) = []"
      using wait_early [OF ws, of k] by (simp add: wd rn)
    have late: "150 \<le> k \<Longrightarrow> world (snd (step func 150 (Wait k) ?burst)) = func w \<and>
        ran (snd (step func 150 (Wait k) ?burst)) = [t0 + g1 + g2 + g3 + g4 + 150]"
      using wait_late [OF ws, of k] by (simp add: wd rn c)
    note early late
  }
  then show ?thesis unfolding split using a by blast
qed

theorem debounced_trigger_witness:
  "world (snd (run Suc 150
     [Invoke, Wait 10, Invoke, Wait 20, Invoke, Wait 30, Invoke, Wait 40, Invoke, Wait 149]
     (idle 5 0))) = 0 \<and>
   ran (snd (run Suc 150
     [Invoke, Wait 10, Invoke, Wait 20, Invoke, Wait 30, Invoke, Wait 40, Invoke, Wait 149]
     (idle 5 0))) = [] \<and>
   world (snd (run Suc 150
     [Invoke, Wait 10, Invoke, Wait 20, Invoke, Wait 30, Invoke, Wait 40, Invoke, Wait 150]
     (idle 5 0))) = 1 \<and>
   ran (snd (run Suc 150
     [Invoke, Wait 10, Invoke, Wait 20, Invoke, Wait 30, Invoke, Wait 40, Invoke, Wait 150]
     (idle 5 0))) = [255]"
proof -
  have a: "(10::nat) + 20 + 30 + 40 < 150 \<and> (149::nat) < 150" by simp
  have b: "(10::nat) + 20 + 30 + 40 < 150 \<and> (150::nat) \<le> 150" by simp
  show ?thesis
    using debounced_trigger [where ?g1.0 = 10 and ?g2.0 = 20 and ?g3.0 = 30 and ?g4.0 = 40
            and k = 149 and func = Suc and ?t0.0 = 5 and w = "0::nat"] a
          debounced_trigger [where ?g1.0 = 10 and ?g2.0 = 20 and ?g3.0 = 30 and ?g4.0 = 40
            and k = 150 and func = Suc and ?t0.0 = 5 and w = "0::nat"] b
    by simp
qed

section \<open>The handlers of the settings tab\<close>

text \<open>
  What a handler leaves in the plugin's settings is what its settings part computes,
  and that is what it saves: \<open>updateMenu\<close> does not write the settings.
\<close>

lemma enableHeaderMenuToggled_settings:
  "enableHeaderMenuToggled v ws p = Inr (p', saved) \<Longrightarrow>
     plugin_settings p' = onChangeEnableHeaderMenu v (plugin_settings p) \<and>
     saved = saveSettings (plugin_settings p')"
  by (auto simp: enableHeaderMenuToggled_def Let_def split: sum.splits dest: updateMenu_settings)

lemma showToggled_settings:
  "showToggled level v ws p = Inr (p', saved) \<Longrightarrow>
     plugin_settings p' = onChangeShow level v (plugin_settings p) \<and>
     saved = saveSettings (plugin_settings p')"
  by (auto simp: showToggled_def Let_def split: sum.splits dest: updateMenu_settings)

end
